theory Spec2Isabelle
  imports Complex_Main
begin

section \<open>Conventions\<close>

text \<open>
  The three filters (MatrixFilter in app.js, WakingLifeFilter, ArcherFilter) compute on
  JavaScript numbers. A finite number is modelled as a \<^typ>\<open>real\<close>, so the rounding of
  IEEE doubles (and of Float32Array cells) is idealised away. Where the source can
  produce the non-finite values NaN or Infinity (a division by zero, a read past the end
  of a typed array), the model has an explicit branch for it: \<open>None\<close> in a
  \<^typ>\<open>real option\<close> stands for NaN, and the type \<open>jsnum\<close> below adds Infinity where
  the source can produce it. Byte buffers (Uint8ClampedArray) are lists of naturals;
  the noise tables, which hold the results of \<open>Math.random()\<close>, are lists of reals;
  the Float32Array buffers that the filters compute (motion map, edge buffer) are lists
  of numbers that may be NaN. \<open>Math.random()\<close> is a stream
  \<open>rnd :: nat \<Rightarrow> real\<close> read at a running position; its values are in
  \<open>[0, 1)\<close>, which the theorems that need it assume.

  The colour that ArcherFilter stores for a pixel is the exception to the idealisation:
  it depends on comparisons of the luminance with 80 and 180 and on \<open>Math.round\<close>,
  which a rounding error of the last bit can decide. There the model computes as the
  program does, in IEEE doubles: every arithmetic operation and every decimal literal
  is rounded to the nearest double, a tie going to the even significand (\<open>fl\<close>
  below). Overflow to Infinity is not modelled: the settings are slider values and the
  channels are bytes, far from the largest double.
\<close>

section \<open>WakingLifeFilter: value noise\<close>

text \<open>
  \<open>noise2D(x, y, table)\<close>: bilinear smoothstep interpolation in a table of
  \<open>512 * 512\<close> cells created by \<open>generateNoiseTable\<close>. All four indices are below
  \<open>512 * 512\<close>, so every read is inside such a table.
\<close>

definition noise2D :: "real \<Rightarrow> real \<Rightarrow> real list \<Rightarrow> real" where
  "noise2D x y table =
     (let xi = nat \<lfloor>\<bar>x\<bar>\<rfloor> mod 512;
          yi = nat \<lfloor>\<bar>y\<bar>\<rfloor> mod 512;
          xf = x - of_int \<lfloor>x\<rfloor>;
          yf = y - of_int \<lfloor>y\<rfloor>;
          n00 = table ! (yi * 512 + xi);
          n10 = table ! (yi * 512 + ((xi + 1) mod 512));
          n01 = table ! (((yi + 1) mod 512) * 512 + xi);
          n11 = table ! (((yi + 1) mod 512) * 512 + ((xi + 1) mod 512));
          sx = xf * xf * (3 - 2 * xf);
          sy = yf * yf * (3 - 2 * yf);
          nx0 = n00 * (1 - sx) + n10 * sx;
          nx1 = n01 * (1 - sx) + n11 * sx
      in nx0 * (1 - sy) + nx1 * sy)"

text \<open>
  The loop of \<open>fbm\<close>; the state is (value, amplitude, frequency, maxValue) and the
  first argument counts the octaves still to run.
\<close>

fun fbm_loop :: "nat \<Rightarrow> real \<Rightarrow> real \<Rightarrow> real list \<Rightarrow> real \<times> real \<times> real \<times> real
    \<Rightarrow> real \<times> real \<times> real \<times> real" where
  "fbm_loop 0 x y table st = st"
| "fbm_loop (Suc n) x y table (val, amplitude, frequency, maxValue) =
     fbm_loop n x y table
       (val + amplitude * noise2D (x * frequency) (y * frequency) table,
        amplitude * 0.5, frequency * 2, maxValue + amplitude)"

text \<open>
  \<open>fbm(x, y, table, octaves)\<close> returns \<open>value / maxValue\<close>. With no octave both are
  0 and the quotient is NaN (\<open>None\<close>).
\<close>

definition fbm :: "real \<Rightarrow> real \<Rightarrow> real list \<Rightarrow> nat \<Rightarrow> real option" where
  "fbm x y table octaves =
     (case fbm_loop octaves x y table (0, 0.5, 1, 0) of
        (val, amplitude, frequency, maxValue) \<Rightarrow>
          if maxValue = 0 then None else Some (val / maxValue))"

section \<open>Shared helpers: NaN-aware arithmetic and typed-array access\<close>

text \<open>
  \<open>lift2 f a b\<close> is a binary arithmetic operation on numbers that may be NaN: the
  result is NaN as soon as one operand is.
\<close>

definition lift2 :: "(real \<Rightarrow> real \<Rightarrow> real) \<Rightarrow> real option \<Rightarrow> real option \<Rightarrow> real option" where
  "lift2 f a b = (case (a, b) of (Some u, Some v) \<Rightarrow> Some (f u v) | _ \<Rightarrow> None)"

text \<open>
  Reading a typed array: inside the array the element, outside \<open>undefined\<close>, which
  every arithmetic operation turns into NaN.
\<close>

definition rdB :: "nat list \<Rightarrow> nat \<Rightarrow> real option" where
  "rdB xs i = (if i < length xs then Some (real (xs ! i)) else None)"

definition rdF :: "real option list \<Rightarrow> nat \<Rightarrow> real option" where
  "rdF xs i = (if i < length xs then xs ! i else None)"

text \<open>\<open>Math.round\<close>: the nearest integer, a tie going up.\<close>

definition Math_round :: "real \<Rightarrow> int" where
  "Math_round v = \<lfloor>v + 1 / 2\<rfloor>"

section \<open>Channel quantization (ArcherFilter.draw, WakingLifeFilter.draw)\<close>

text \<open>
  \<open>step = 255 / (levels - 1); r = Math.round(r / step) * step\<close>. With
  \<open>levels = 1\<close> the step is Infinity, \<open>r / step\<close> is 0 and \<open>0 * Infinity\<close> is NaN.
\<close>

definition quantize :: "real \<Rightarrow> real \<Rightarrow> real option" where
  "quantize levels v =
     (if levels = 1 then None
      else (let step = 255 / (levels - 1) in Some (of_int (Math_round (v / step)) * step)))"

text \<open>\<open>Math.max(0, Math.min(255, r))\<close>; NaN stays NaN.\<close>

definition clamp255 :: "real option \<Rightarrow> real option" where
  "clamp255 v = map_option (\<lambda>u. max 0 (min 255 u)) v"

text \<open>Quantize and clamp, as ArcherFilter.draw does for each of r, g and b.\<close>

definition quantizeChannel :: "real \<Rightarrow> real \<Rightarrow> real option" where
  "quantizeChannel levels v = clamp255 (quantize levels v)"

text \<open>
  WakingLifeFilter.draw adds a dither before rounding:
  \<open>r = Math.round((r + dither) / step) * step\<close>, then clamps.
\<close>

definition quantizeDither :: "real \<Rightarrow> real \<Rightarrow> real \<Rightarrow> real option" where
  "quantizeDither levels dither v = clamp255 (quantize levels (v + dither))"

section \<open>WakingLifeFilter: motion detection\<close>

datatype error = RangeError | TypeError | IndexSizeError

text \<open>
  The fields of WakingLifeFilter that motion detection reads and writes. \<open>prevFrame\<close>
  and \<open>motionMap\<close> start as \<open>null\<close> (\<open>None\<close>); a cell of the motion map and the
  global motion are numbers that may be NaN.
\<close>

record motion_state =
  prevFrame :: "nat list option"
  motionMap :: "real option list option"
  globalMotion :: "real option"
  time :: real
  frameCount :: nat

text \<open>
  The motion of one block: \<open>(diffR + diffG + diffB) / (255 * 3)\<close> at byte index
  \<open>idx\<close> of the current and the previous frame.
\<close>

definition blockMotion :: "nat list \<Rightarrow> nat list \<Rightarrow> nat \<Rightarrow> real option" where
  "blockMotion src prev idx =
     (let diffR = lift2 (\<lambda>a b. \<bar>a - b\<bar>) (rdB src idx) (rdB prev idx);
          diffG = lift2 (\<lambda>a b. \<bar>a - b\<bar>) (rdB src (idx + 1)) (rdB prev (idx + 1));
          diffB = lift2 (\<lambda>a b. \<bar>a - b\<bar>) (rdB src (idx + 2)) (rdB prev (idx + 2))
      in map_option (\<lambda>s. s / (255 * 3)) (lift2 (+) (lift2 (+) diffR diffG) diffB))"

text \<open>
  The body of the two loops of \<open>detectMotion\<close> for the block \<open>(gy, gx)\<close>; the state
  is the motion map and \<open>totalMotion\<close>. A write past the end of a typed array is
  ignored, as \<open>list_update\<close> does.
\<close>

definition motionStep :: "nat list \<Rightarrow> nat list \<Rightarrow> nat \<Rightarrow> nat \<Rightarrow> nat \<times> nat
    \<Rightarrow> real option list \<times> real option \<Rightarrow> real option list \<times> real option" where
  "motionStep src prev width gridW p st =
     (case (p, st) of ((gy, gx), (m, totalMotion)) \<Rightarrow>
        (let x = gx * 16 + 8;
             y = gy * 16 + 8;
             idx = (y * width + x) * 4;
             motion = blockMotion src prev idx;
             gridIdx = gy * gridW + gx;
             m' = m[gridIdx := lift2 (\<lambda>old mo. old * 0.7 + mo * 0.3) (rdF m gridIdx) motion]
         in (m', lift2 (+) totalMotion (rdF m' gridIdx))))"

text \<open>
  \<open>detectMotion(src, width, height)\<close>. The result is the new state and the exception
  that \<open>prevFrame.set(src)\<close> raises when the new frame is longer than the stored one
  (the map and the global motion are already updated by then).
\<close>

definition detectMotion :: "nat list \<Rightarrow> nat \<Rightarrow> nat \<Rightarrow> motion_state \<Rightarrow> error option \<times> motion_state" where
  "detectMotion src width height st =
     (let gridW = width div 16;
          gridH = height div 16;
          m0 = (case motionMap st of
                  None \<Rightarrow> replicate (gridW * gridH) (Some 0)
                | Some m \<Rightarrow> if length m \<noteq> gridW * gridH
                            then replicate (gridW * gridH) (Some 0) else m);
          st1 = st\<lparr>motionMap := Some m0\<rparr>
      in case prevFrame st of
           None \<Rightarrow> (None, st1\<lparr>prevFrame := Some src\<rparr>)
         | Some prev \<Rightarrow>
             (case fold (\<lambda>gy. fold (\<lambda>gx. motionStep src prev width gridW (gy, gx)) [0..<gridW])
                     [0..<gridH] (m0, Some 0) of
                (m1, totalMotion) \<Rightarrow>
                  (let avgMotion = (if gridW * gridH = 0 then None
                                    else map_option (\<lambda>t. t / real (gridW * gridH)) totalMotion);
                       st2 = st1\<lparr>motionMap := Some m1,
                                 globalMotion := lift2 (\<lambda>g a. g * 0.8 + a * 0.2) (globalMotion st) avgMotion\<rparr>
                   in if length prev < length src then (Some RangeError, st2)
                      else (None, st2\<lparr>prevFrame := Some (src @ drop (length src) prev)\<rparr>))))"

text \<open>
  \<open>getMotionAt(x, y, width, height)\<close>: the cell of the block that holds \<open>(x, y)\<close>, the
  global motion outside the grid or before the first map.
\<close>

definition getMotionAt :: "motion_state \<Rightarrow> real \<Rightarrow> real \<Rightarrow> nat \<Rightarrow> nat \<Rightarrow> real option" where
  "getMotionAt st x y width height =
     (case motionMap st of
        None \<Rightarrow> globalMotion st
      | Some m \<Rightarrow>
          (let gridW = width div 16;
               gridH = height div 16;
               gx = \<lfloor>x / 16\<rfloor>;
               gy = \<lfloor>y / 16\<rfloor>
           in if gx < 0 \<or> int gridW \<le> gx \<or> gy < 0 \<or> int gridH \<le> gy then globalMotion st
              else rdF m (nat gy * gridW + nat gx)))"

text \<open>
  The motion multiplier of the pixel loop of \<open>draw\<close>:
  \<open>1 + localMotion * 15 + this.globalMotion * 8\<close>.
\<close>

definition motionMultiplier :: "motion_state \<Rightarrow> real \<Rightarrow> real \<Rightarrow> nat \<Rightarrow> nat \<Rightarrow> real option" where
  "motionMultiplier st x y width height =
     lift2 (\<lambda>localMotion g. 1 + localMotion * 15 + g * 8)
       (getMotionAt st x y width height) (globalMotion st)"

text \<open>
  The update of a block as the specification words it, for comparison with
  \<open>motionStep\<close>: 0.7 times the previous value plus 0.3 times the normalized magnitude
  of the luma difference, with luma = 0.299 R + 0.587 G + 0.114 B.
\<close>

definition luma :: "real \<Rightarrow> real \<Rightarrow> real \<Rightarrow> real" where
  "luma r g b = 0.299 * r + 0.587 * g + 0.114 * b"

definition spec_luma_motion_update :: "real \<Rightarrow> real \<times> real \<times> real \<Rightarrow> real \<times> real \<times> real \<Rightarrow> real" where
  "spec_luma_motion_update old cur prev =
     (case (cur, prev) of ((r, g, b), (r', g', b')) \<Rightarrow>
        0.7 * old + 0.3 * (\<bar>luma r g b - luma r' g' b'\<bar> / 255))"

section \<open>MatrixFilter: brightness of a grid cell\<close>

text \<open>
  A number that may be finite, \<open>+Infinity\<close> or NaN: the values that
  \<open>getBrightnessAt\<close> can return.
\<close>

datatype jsnum = Finite real | PosInfinity | NaN

text \<open>
  The glyph cells, streams and explosion particles of MatrixFilter. A glyph is the code
  point of its character (\<open>None\<close> for \<open>undefined\<close>); the fields \<open>x\<close>, \<open>y\<close>,
  \<open>char\<close> and \<open>length\<close> of the source carry a prefix here. The head position of a
  stream may be NaN (\<open>None\<close>).
\<close>

record cell =
  c_char :: "nat option"
  brightness :: real
  targetBrightness :: real
  changeTimer :: real

record stream =
  s_x :: nat
  s_y :: "real option"
  speed :: real
  s_length :: int

record particle =
  p_x :: real
  p_y :: real
  p_vx :: real
  p_vy :: real
  life :: real
  decay :: real
  p_char :: "nat option"
  isWhite :: bool
  hasGravity :: bool

record matrix_state =
  gridWidth :: nat
  gridHeight :: nat
  videoWidth :: nat
  videoHeight :: nat
  brightnessData :: "nat list option"
  charSize :: real
  fallSpeed :: real
  brightnessSensitivity :: real
  explosionRate :: real
  contrast :: real
  grid :: "cell list list"
  streams :: "stream list"
  explosions :: "particle list"

text \<open>
  \<open>Math.floor((gridX / this.gridWidth) * this.videoWidth)\<close>. With \<open>gridWidth = 0\<close>
  the quotient is NaN (for \<open>gridX = 0\<close>) or Infinity, and \<open>Infinity * 0\<close> is NaN.
\<close>

definition videoCoord :: "nat \<Rightarrow> nat \<Rightarrow> nat \<Rightarrow> jsnum" where
  "videoCoord g gridN videoN =
     (if gridN = 0 then (if g = 0 \<or> videoN = 0 then NaN else PosInfinity)
      else Finite (of_int \<lfloor>real g / real gridN * real videoN\<rfloor>))"

text \<open>
  \<open>Math.max(0, Math.min(videoN - 1, v + d))\<close>: an integer, or NaN (\<open>None\<close>) when
  \<open>v\<close> is.
\<close>

definition clampCoord :: "nat \<Rightarrow> jsnum \<Rightarrow> int \<Rightarrow> int option" where
  "clampCoord videoN v d =
     (case v of
        NaN \<Rightarrow> None
      | PosInfinity \<Rightarrow> Some (max 0 (int videoN - 1))
      | Finite u \<Rightarrow> Some (max 0 (min (int videoN - 1) (\<lfloor>u\<rfloor> + d))))"

text \<open>
  One sample of the box: \<open>(r * 0.299 + g * 0.587 + b * 0.114) / 255\<close> at the clamped
  pixel. A NaN index reads \<open>undefined\<close>.
\<close>

definition sampleAt :: "nat list \<Rightarrow> nat \<Rightarrow> int option \<Rightarrow> int option \<Rightarrow> real option" where
  "sampleAt data vw px py =
     (case (px, py) of
        (Some qx, Some qy) \<Rightarrow>
          (let idx = nat ((qy * int vw + qx) * 4);
               r = rdB data idx;
               g = rdB data (idx + 1);
               b = rdB data (idx + 2)
           in map_option (\<lambda>t. t / 255)
                (lift2 (+) (lift2 (+) (map_option (\<lambda>u. u * 0.299) r) (map_option (\<lambda>u. u * 0.587) g))
                   (map_option (\<lambda>u. u * 0.114) b)))
      | _ \<Rightarrow> None)"

text \<open>
  The two loops over \<open>dx\<close> and \<open>dy\<close> from \<open>-sampleRadius\<close> to \<open>sampleRadius\<close>
  (2), then \<open>total / samples\<close> with the 25 samples counted.
\<close>

definition sampleBrightness :: "matrix_state \<Rightarrow> nat list \<Rightarrow> nat \<Rightarrow> nat \<Rightarrow> real option" where
  "sampleBrightness st data gridX gridY =
     (let vx = videoCoord gridX (gridWidth st) (videoWidth st);
          vy = videoCoord gridY (gridHeight st) (videoHeight st);
          tot = fold (\<lambda>dx. fold (\<lambda>dy acc.
                      lift2 (+) acc
                        (sampleAt data (videoWidth st) (clampCoord (videoWidth st) vx dx)
                           (clampCoord (videoHeight st) vy dy)))
                    [- 2 .. 2]) [- 2 .. 2] (Some 0)
      in map_option (\<lambda>t. t / 25) tot)"

text \<open>
  \<open>Math.pow(b, e)\<close> for a base \<open>b\<close> that is NaN or in \<open>[0, 1]\<close>, which is what the
  clamp before it leaves: \<open>Math.pow(x, 0)\<close> is 1 for every \<open>x\<close>, NaN included;
  \<open>Math.pow(0, e)\<close> is 0 for positive and Infinity for negative \<open>e\<close>.
\<close>

definition Math_pow :: "real option \<Rightarrow> real \<Rightarrow> jsnum" where
  "Math_pow b e =
     (if e = 0 then Finite 1
      else case b of
             None \<Rightarrow> NaN
           | Some u \<Rightarrow> if u = 0 then (if 0 < e then Finite 0 else PosInfinity)
                       else Finite (u powr e))"

text \<open>
  The adjustment of the sampled brightness (the last lines of \<open>getBrightnessAt\<close>):
  contrast around 0.5, clamp to \<open>[0, 1]\<close>, then the sensitivity exponent.
\<close>

definition adjustBrightness :: "real \<Rightarrow> real \<Rightarrow> real option \<Rightarrow> jsnum" where
  "adjustBrightness con sens b =
     (let contrastFactor = con / 5;
          b1 = map_option (\<lambda>u. (u - 0.5) * contrastFactor + 0.5) b;
          b2 = map_option (\<lambda>u. max 0 (min 1 u)) b1
      in Math_pow b2 (2 - sens / 5))"

definition getBrightnessAt :: "matrix_state \<Rightarrow> nat \<Rightarrow> nat \<Rightarrow> jsnum" where
  "getBrightnessAt st gridX gridY =
     (case brightnessData st of
        None \<Rightarrow> Finite 0
      | Some data \<Rightarrow>
          adjustBrightness (contrast st) (brightnessSensitivity st)
            (sampleBrightness st data gridX gridY))"

text \<open>A number within \<open>[0, 1]\<close>.\<close>

definition in_unit :: "jsnum \<Rightarrow> bool" where
  "in_unit v = (case v of Finite u \<Rightarrow> 0 \<le> u \<and> u \<le> 1 | _ \<Rightarrow> False)"

section \<open>MatrixFilter: streams\<close>

text \<open>
  The sum of the brightness of column \<open>x\<close> over the rows below \<open>gridHeight\<close>. A
  missing column or cell makes \<open>this.grid[x][y].brightness\<close> raise a TypeError.
\<close>

definition columnTotal :: "cell list list \<Rightarrow> nat \<Rightarrow> nat \<Rightarrow> error + real" where
  "columnTotal g x gh =
     fold (\<lambda>y acc. case acc of
                      Inl e \<Rightarrow> Inl e
                    | Inr t \<Rightarrow> if x < length g \<and> y < length (g ! x)
                               then Inr (t + brightness (g ! x ! y)) else Inl TypeError)
       [0..<gh] (Inr 0)"

text \<open>
  The head position after \<open>stream.y += stream.speed * (this.fallSpeed / 5) * speedMod\<close>.
  With \<open>gridHeight = 0\<close> the average brightness is \<open>0 / 0\<close>, NaN.
\<close>

definition advanceStream :: "real \<Rightarrow> nat \<Rightarrow> cell list list \<Rightarrow> stream \<Rightarrow> error + real option" where
  "advanceStream fs gh g s =
     (case columnTotal g (s_x s) gh of
        Inl e \<Rightarrow> Inl e
      | Inr tot \<Rightarrow>
          (let avgBrightness = (if gh = 0 then None else Some (tot / real gh));
               speedMod = map_option (\<lambda>a. 0.5 + a * 1.5) avgBrightness
           in Inr (lift2 (\<lambda>y sm. y + speed s * (fs / 5) * sm) (s_y s) speedMod)))"

text \<open>
  The body of the loop of \<open>updateStreams\<close> for one stream; \<open>k\<close> is the position in
  the stream of random numbers. A NaN position compares false with everything.
\<close>

definition updateStream :: "(nat \<Rightarrow> real) \<Rightarrow> real \<Rightarrow> nat \<Rightarrow> cell list list \<Rightarrow> nat \<Rightarrow> stream
    \<Rightarrow> error + nat \<times> stream" where
  "updateStream rnd fs gh g k s =
     (case advanceStream fs gh g s of
        Inl e \<Rightarrow> Inl e
      | Inr y' \<Rightarrow>
          if (case y' of None \<Rightarrow> False | Some v \<Rightarrow> real gh < v - of_int (s_length s))
          then Inr (k + 2, s\<lparr>s_y := Some (- of_int (s_length s)),
                              speed := 0.3 + rnd k * 0.4,
                              s_length := 5 + \<lfloor>rnd (k + 1) * 15\<rfloor>\<rparr>)
          else Inr (k, s\<lparr>s_y := y'\<rparr>))"

text \<open>
  \<open>updateStreams\<close>: the streams in order. An exception leaves the streams before it
  updated and the others as they were.
\<close>

fun updateStreams :: "(nat \<Rightarrow> real) \<Rightarrow> real \<Rightarrow> nat \<Rightarrow> cell list list \<Rightarrow> nat \<Rightarrow> stream list
    \<Rightarrow> error option \<times> nat \<times> stream list" where
  "updateStreams rnd fs gh g k [] = (None, k, [])"
| "updateStreams rnd fs gh g k (s # ss) =
     (case updateStream rnd fs gh g k s of
        Inl e \<Rightarrow> (Some e, k, s # ss)
      | Inr (k', s') \<Rightarrow>
          (case updateStreams rnd fs gh g k' ss of
             (e, k'', ss') \<Rightarrow> (e, k'', s' # ss')))"

text \<open>The stream that \<open>initGrid\<close> creates for column \<open>x\<close>.\<close>

definition initStream :: "(nat \<Rightarrow> real) \<Rightarrow> nat \<Rightarrow> nat \<Rightarrow> nat \<Rightarrow> stream" where
  "initStream rnd k x gh =
     \<lparr>s_x = x, s_y = Some (rnd k * real gh), speed = 0.3 + rnd (k + 1) * 0.4,
      s_length = 5 + \<lfloor>rnd (k + 2) * 15\<rfloor>\<rparr>"

text \<open>The bounds of a stream's trail length, 5 to 19.\<close>

definition stream_ok :: "stream \<Rightarrow> bool" where
  "stream_ok s = (5 \<le> s_length s \<and> s_length s \<le> 19)"

section \<open>MatrixFilter: explosion particles\<close>

text \<open>
  \<open>matrixChars\<close>: the 56 half-width katakana from U+FF66 to U+FF9D, as code points,
  and \<open>getRandomChar\<close> for the random number \<open>r\<close>.
\<close>

definition matrixChars :: "nat list" where
  "matrixChars = map (\<lambda>i. 65382 + i) [0..<56]"

definition getRandomChar :: "real \<Rightarrow> nat option" where
  "getRandomChar r =
     (let i = \<lfloor>r * real (length matrixChars)\<rfloor>
      in if 0 \<le> i \<and> nat i < length matrixChars then Some (matrixChars ! nat i) else None)"

text \<open>Position, gravity and life of a particle for one step.\<close>

definition moveParticle :: "particle \<Rightarrow> particle" where
  "moveParticle p =
     (let p1 = p\<lparr>p_x := p_x p + p_vx p, p_y := p_y p + p_vy p\<rparr>;
          p2 = (if hasGravity p1 then p1\<lparr>p_vy := p_vy p1 + 0.02\<rparr> else p1)
      in p2\<lparr>life := life p2 - decay p2\<rparr>)"

text \<open>
  The first loop of \<open>updateExplosions\<close>, from the last particle down to the first:
  \<open>updateExplosions_loop rnd n (k, ps)\<close> runs the indices \<open>n - 1, \<dots>, 0\<close>. It
  is started at \<open>n = length ps\<close>, and a step removes at most the particle at its own
  index, so the index is always inside the pool.
\<close>

fun updateExplosions_loop :: "(nat \<Rightarrow> real) \<Rightarrow> nat \<Rightarrow> nat \<times> particle list \<Rightarrow> nat \<times> particle list" where
  "updateExplosions_loop rnd 0 st = st"
| "updateExplosions_loop rnd (Suc i) (k, ps) =
     (let p = moveParticle (ps ! i);
          k' = (if rnd k < 0.05 then k + 2 else k + 1);
          p' = (if rnd k < 0.05 then p\<lparr>p_char := getRandomChar (rnd (k + 1))\<rparr> else p);
          ps' = ps[i := p']
      in updateExplosions_loop rnd i
           (k', if life p' \<le> 0 then take i ps' @ drop (Suc i) ps' else ps'))"

text \<open>
  \<open>updateExplosions\<close>: the loop, then
  \<open>this.explosions.splice(0, this.explosions.length - 500)\<close> when more than 500
  particles are left.
\<close>

definition updateExplosions :: "(nat \<Rightarrow> real) \<Rightarrow> nat \<Rightarrow> particle list \<Rightarrow> nat \<times> particle list" where
  "updateExplosions rnd k ps =
     (case updateExplosions_loop rnd (length ps) (k, ps) of
        (k', ps') \<Rightarrow>
          (k', if 500 < length ps' then drop (length ps' - 500) ps' else ps'))"

text \<open>
  A particle without its glyph, to compare pools up to the random glyph changes.
\<close>

definition forgetChar :: "particle \<Rightarrow> particle" where
  "forgetChar p = p\<lparr>p_char := None\<rparr>"

section \<open>IEEE double arithmetic\<close>

text \<open>
  The integer nearest to \<open>x\<close>, a tie going to the even one.
\<close>

definition roundHalfEven :: "real \<Rightarrow> int" where
  "roundHalfEven x =
     (let f = \<lfloor>x\<rfloor>
      in if x < of_int f + 1 / 2 then f
         else if of_int f + 1 / 2 < x then f + 1
         else if even f then f else f + 1)"

text \<open>
  \<open>fl x\<close> is the double nearest to \<open>x\<close>: with \<open>2 ^ e \<le> |x| < 2 ^ (e + 1)\<close> the
  doubles around \<open>x\<close> are the multiples of \<open>2 ^ (e - 52)\<close>, and below
  \<open>2 ^ (- 1022)\<close> (the subnormal range) the multiples of \<open>2 ^ (- 1074)\<close>.
\<close>

definition fl :: "real \<Rightarrow> real" where
  "fl x =
     (if x = 0 then 0
      else (let e = max \<lfloor>log 2 \<bar>x\<bar>\<rfloor> (- 1022);
                u = 2 powr (of_int e - 52)
            in of_int (roundHalfEven (x / u)) * u))"

text \<open>The four operations on doubles: the exact result, rounded.\<close>

definition fadd :: "real \<Rightarrow> real \<Rightarrow> real" where
  "fadd a b = fl (a + b)"

definition fsub :: "real \<Rightarrow> real \<Rightarrow> real" where
  "fsub a b = fl (a - b)"

definition fmul :: "real \<Rightarrow> real \<Rightarrow> real" where
  "fmul a b = fl (a * b)"

definition fdiv :: "real \<Rightarrow> real \<Rightarrow> real" where
  "fdiv a b = fl (a / b)"

text \<open>
  The quantization of ArcherFilter.draw in doubles:
  \<open>step = 255 / (levels - 1); r = Math.round(r / step) * step\<close>, then the clamp. With
  \<open>levels - 1 = 0\<close> the step is Infinity and the result NaN. \<open>Math.round\<close> is exact
  on the double it is given.
\<close>

definition quantizeD :: "real \<Rightarrow> real \<Rightarrow> real option" where
  "quantizeD levels v =
     (if fsub levels 1 = 0 then None
      else (let step = fdiv 255 (fsub levels 1)
            in Some (fmul (of_int (Math_round (fdiv v step))) step)))"

definition quantizeChannelD :: "real \<Rightarrow> real \<Rightarrow> real option" where
  "quantizeChannelD levels v = clamp255 (quantizeD levels v)"

section \<open>ArcherFilter: the cel-shading passes\<close>

text \<open>The settings of ArcherFilter.\<close>

record archer_params =
  edgeThickness :: real
  colorLevels :: real
  shadowIntensity :: real
  highlightBoost :: real
  saturationBoost :: real

text \<open>
  Storing a number in a Uint8ClampedArray: NaN becomes 0, the value is clamped to
  \<open>[0, 255]\<close> and rounded to the nearest integer, a tie going to the even one.
\<close>

definition toUint8Clamp :: "real option \<Rightarrow> nat" where
  "toUint8Clamp v =
     (case v of
        None \<Rightarrow> 0
      | Some u \<Rightarrow>
          if u \<le> 0 then 0
          else if 255 \<le> u then 255
          else (let f = \<lfloor>u\<rfloor>
                in if u < of_int f + 1 / 2 then nat f
                   else if of_int f + 1 / 2 < u then nat (f + 1)
                   else if even f then nat f else nat (f + 1)))"

text \<open>Reading a Float32Array at an integer index that may be negative.\<close>

definition rdI :: "real option list \<Rightarrow> int \<Rightarrow> real option" where
  "rdI xs i = (if 0 \<le> i \<and> nat i < length xs then xs ! nat i else None)"

text \<open>
  The luminance \<open>r * 0.299 + g * 0.587 + b * 0.114\<close> of the pixel whose bytes start
  at \<open>idx\<close>.
\<close>

definition lumAt :: "nat list \<Rightarrow> nat \<Rightarrow> real option" where
  "lumAt src idx =
     lift2 (+)
       (lift2 (+) (map_option (\<lambda>u. u * 0.299) (rdB src idx))
                  (map_option (\<lambda>u. u * 0.587) (rdB src (idx + 1))))
       (map_option (\<lambda>u. u * 0.114) (rdB src (idx + 2)))"

definition sobelX :: "real list list" where
  "sobelX = [[- 1, 0, 1], [- 2, 0, 2], [- 1, 0, 1]]"

definition sobelY :: "real list list" where
  "sobelY = [[- 1, - 2, - 1], [0, 0, 0], [1, 2, 1]]"

text \<open>
  The Sobel sums \<open>(gx, gy)\<close> over the 3 by 3 neighbourhood of the pixel \<open>(x, y)\<close>,
  and the edge magnitude \<open>Math.sqrt(gx * gx + gy * gy)\<close>.
\<close>

definition sobel :: "nat list \<Rightarrow> nat \<Rightarrow> nat \<Rightarrow> nat \<Rightarrow> real option \<times> real option" where
  "sobel src width x y =
     fold (\<lambda>ky. fold (\<lambda>kx g.
             (let nidx = nat (((int y + ky) * int width + (int x + kx)) * 4);
                  nLum = lumAt src nidx
              in (lift2 (+) (fst g) (map_option (\<lambda>l. l * sobelX ! nat (ky + 1) ! nat (kx + 1)) nLum),
                  lift2 (+) (snd g) (map_option (\<lambda>l. l * sobelY ! nat (ky + 1) ! nat (kx + 1)) nLum))))
           [- 1, 0, 1]) [- 1, 0, 1] (Some 0, Some 0)"

definition edgeMagnitude :: "nat list \<Rightarrow> nat \<Rightarrow> nat \<Rightarrow> nat \<Rightarrow> real option" where
  "edgeMagnitude src width x y =
     (case sobel src width x y of (gx, gy) \<Rightarrow> lift2 (\<lambda>a b. sqrt (a * a + b * b)) gx gy)"

text \<open>
  The colour of a pixel after the saturation boost, the shadow or highlight factor, the
  quantization and the clamp, before it is stored; \<open>r\<close>, \<open>g\<close> and \<open>b\<close> are the
  source bytes. Every operation is the double operation of the source, in its order:
  \<open>r * 0.299 + g * 0.587 + b * 0.114\<close> is two additions of three products,
  \<open>gray + (r - gray) * satMult\<close> a subtraction, a product and an addition.
\<close>

definition shadePixel :: "archer_params \<Rightarrow> real \<Rightarrow> real \<Rightarrow> real
    \<Rightarrow> real option \<times> real option \<times> real option" where
  "shadePixel P r g b =
     (let lum = fadd (fadd (fmul r (fl 0.299)) (fmul g (fl 0.587))) (fmul b (fl 0.114));
          gray = lum;
          satMult = fadd 1 (fmul (fsub (saturationBoost P) 5) (fl 0.15));
          r1 = fadd gray (fmul (fsub r gray) satMult);
          g1 = fadd gray (fmul (fsub g gray) satMult);
          b1 = fadd gray (fmul (fsub b gray) satMult);
          shadowMult = fdiv (shadowIntensity P) 5;
          highlightMult = fdiv (highlightBoost P) 5;
          c = (if lum < 80
               then (let factor = fadd (fl 0.7) (fmul (fsub 1 shadowMult) (fl 0.3))
                     in (fmul r1 factor, fmul g1 factor, fmul b1 factor))
               else if 180 < lum
               then (let factor = fadd 1 (fmul (fsub highlightMult 1) (fl 0.2))
                     in (min 255 (fmul r1 factor), min 255 (fmul g1 factor), min 255 (fmul b1 factor)))
               else (r1, g1, b1))
      in case c of (r2, g2, b2) \<Rightarrow>
           (quantizeChannelD (colorLevels P) r2, quantizeChannelD (colorLevels P) g2,
            quantizeChannelD (colorLevels P) b2))"

text \<open>
  The four bytes that the first pass stores for the pixel whose source bytes start at
  \<open>idx\<close>. A missing source byte makes every channel NaN, stored as 0.
\<close>

definition shadedAt :: "archer_params \<Rightarrow> nat list \<Rightarrow> nat \<Rightarrow> nat \<times> nat \<times> nat \<times> nat" where
  "shadedAt P src idx =
     (case (rdB src idx, rdB src (idx + 1), rdB src (idx + 2)) of
        (Some r, Some g, Some b) \<Rightarrow>
          (case shadePixel P r g b of (r', g', b') \<Rightarrow>
             (toUint8Clamp r', toUint8Clamp g', toUint8Clamp b', 255))
      | _ \<Rightarrow> (0, 0, 0, 255))"

definition writePixel :: "nat list \<Rightarrow> nat \<Rightarrow> nat \<times> nat \<times> nat \<times> nat \<Rightarrow> nat list" where
  "writePixel dst idx c =
     (case c of (r, g, b, a) \<Rightarrow> dst[idx := r, idx + 1 := g, idx + 2 := b, idx + 3 := a])"

text \<open>The body of the first pass for the pixel \<open>(y, x)\<close>; the state is (edges, dst).\<close>

definition pass1Pixel :: "archer_params \<Rightarrow> nat list \<Rightarrow> nat \<Rightarrow> nat \<times> nat
    \<Rightarrow> real option list \<times> nat list \<Rightarrow> real option list \<times> nat list" where
  "pass1Pixel P src width p st =
     (case (p, st) of ((y, x), (edges, dst)) \<Rightarrow>
        (edges[y * width + x := edgeMagnitude src width x y],
         writePixel dst ((y * width + x) * 4) (shadedAt P src ((y * width + x) * 4))))"

definition pass1 :: "archer_params \<Rightarrow> nat list \<Rightarrow> nat \<Rightarrow> nat
    \<Rightarrow> real option list \<times> nat list \<Rightarrow> real option list \<times> nat list" where
  "pass1 P src width height =
     fold (\<lambda>y. fold (\<lambda>x. pass1Pixel P src width (y, x)) [1..<width - 1]) [1..<height - 1]"

text \<open>
  The largest edge magnitude in the disc of radius \<open>thickness\<close> around \<open>(x, y)\<close>;
  \<open>Math.max\<close> with NaN or \<open>undefined\<close> is NaN.
\<close>

definition maxEdgeAt :: "real option list \<Rightarrow> nat \<Rightarrow> int \<Rightarrow> int \<Rightarrow> int \<Rightarrow> real option" where
  "maxEdgeAt edges width thickness x y =
     fold (\<lambda>dy. fold (\<lambda>dx maxEdge.
             if sqrt (of_int (dx * dx + dy * dy)) \<le> of_int thickness
             then lift2 max maxEdge (rdI edges ((y + dy) * int width + (x + dx)))
             else maxEdge)
           [- thickness .. thickness]) [- thickness .. thickness] (Some 0)"

text \<open>
  \<open>dst[i] = dst[i] * (1 - darkness)\<close>; a write outside the buffer is ignored.
\<close>

definition darken :: "real \<Rightarrow> int \<Rightarrow> nat list \<Rightarrow> nat list" where
  "darken darkness i dst =
     (if 0 \<le> i \<and> nat i < length dst
      then dst[nat i := toUint8Clamp (Some (real (dst ! nat i) * (1 - darkness)))]
      else dst)"

definition pass2Pixel :: "real option list \<Rightarrow> nat \<Rightarrow> int \<Rightarrow> int \<times> int \<Rightarrow> nat list \<Rightarrow> nat list" where
  "pass2Pixel edges width thickness p dst =
     (case p of (y, x) \<Rightarrow>
        (let idx = (y * int width + x) * 4
         in case maxEdgeAt edges width thickness x y of
              None \<Rightarrow> dst
            | Some maxEdge \<Rightarrow>
                if 30 < maxEdge
                then (let edgeFactor = min 1 ((maxEdge - 30) / 100);
                          darkness = edgeFactor * 0.85
                      in darken darkness (idx + 2) (darken darkness (idx + 1) (darken darkness idx dst)))
                else dst))"

definition pass2 :: "real option list \<Rightarrow> nat \<Rightarrow> nat \<Rightarrow> int \<Rightarrow> nat list \<Rightarrow> nat list" where
  "pass2 edges width height thickness =
     fold (\<lambda>y. fold (\<lambda>x. pass2Pixel edges width thickness (y, x))
                 [thickness .. int width - thickness - 1])
       [thickness .. int height - thickness - 1]"

text \<open>A stroked line of \<open>drawOutlines\<close>, black with opacity \<open>alpha\<close>.\<close>

record stroke =
  lineWidth :: real
  alpha :: real
  from_x :: int
  from_y :: int
  to_x :: int
  to_y :: int

definition outlineNeighbors :: "(int \<times> int) list" where
  "outlineNeighbors = [(2, 0), (0, 2), (2, 2), (- 2, 2)]"

text \<open>
  The body of the loops of \<open>drawOutlines\<close> for the grid point \<open>(y, x)\<close>; the state
  is the list of the strokes drawn so far. A comparison with NaN is false.
\<close>

definition outlinesAt :: "real \<Rightarrow> real option list \<Rightarrow> nat \<Rightarrow> nat \<Rightarrow> nat \<times> nat
    \<Rightarrow> stroke list \<Rightarrow> stroke list" where
  "outlinesAt lw edges width height p strokes =
     (case p of (y, x) \<Rightarrow>
        (case rdI edges (int (y * width + x)) of
           None \<Rightarrow> strokes
         | Some edgeVal \<Rightarrow>
             if 40 < edgeVal
             then fold (\<lambda>n acc.
                    (let nx = int x + fst n; ny = int y + snd n
                     in if 0 \<le> nx \<and> nx < int width \<and> 0 \<le> ny \<and> ny < int height
                        then (case rdI edges (ny * int width + nx) of
                                None \<Rightarrow> acc
                              | Some neighborEdge \<Rightarrow>
                                  if 40 < neighborEdge
                                  then acc @ [\<lparr>lineWidth = lw,
                                               alpha = 0.6 + min 1 (min edgeVal neighborEdge / 150) * 0.4,
                                               from_x = int x, from_y = int y, to_x = nx, to_y = ny\<rparr>]
                                  else acc)
                        else acc))
                    outlineNeighbors strokes
             else strokes))"

definition drawOutlines :: "real \<Rightarrow> real option list \<Rightarrow> nat \<Rightarrow> nat \<Rightarrow> stroke list" where
  "drawOutlines lw edges width height =
     fold (\<lambda>y. fold (\<lambda>x. outlinesAt lw edges width height (y, x)) (filter even [2..<width - 2]))
       (filter even [2..<height - 2]) []"

text \<open>
  The frame computation of \<open>draw\<close> from the source pixels on: a fresh output buffer of
  zeros and a fresh edge buffer of zeros, the two passes, and the outlines. The result
  is the output buffer that is put on the canvas and the strokes drawn over it.
\<close>

definition drawFrame :: "archer_params \<Rightarrow> nat \<Rightarrow> nat \<Rightarrow> nat list \<Rightarrow> nat list \<times> stroke list" where
  "drawFrame P width height src =
     (case pass1 P src width height
             (replicate (width * height) (Some 0), replicate (width * height * 4) 0) of
        (edges, dst) \<Rightarrow>
          (pass2 edges width height \<lfloor>edgeThickness P\<rfloor> dst,
           drawOutlines (edgeThickness P * 0.8) edges width height))"

text \<open>
  \<open>draw\<close>: nothing is drawn while the video has no width; \<open>getImageData\<close> raises an
  IndexSizeError for an empty canvas, and otherwise returns \<open>width * height * 4\<close>
  bytes, the argument \<open>src\<close>.
\<close>

definition draw :: "archer_params \<Rightarrow> nat \<Rightarrow> nat \<Rightarrow> nat \<Rightarrow> nat list
    \<Rightarrow> error + (nat list \<times> stroke list) option" where
  "draw P videoW width height src =
     (if videoW = 0 then Inr None
      else if width = 0 \<or> height = 0 then Inl IndexSizeError
      else Inr (Some (drawFrame P width height src)))"

text \<open>The four bytes of the pixel \<open>(x, y)\<close> of a buffer, and a frame of one colour.\<close>

definition pixelAt :: "nat list \<Rightarrow> nat \<Rightarrow> nat \<Rightarrow> nat \<Rightarrow> nat \<times> nat \<times> nat \<times> nat" where
  "pixelAt buf width x y =
     (let idx = (y * width + x) * 4
      in (buf ! idx, buf ! (idx + 1), buf ! (idx + 2), buf ! (idx + 3)))"

definition uniformFrame :: "nat \<Rightarrow> nat \<Rightarrow> nat \<times> nat \<times> nat \<times> nat \<Rightarrow> nat list" where
  "uniformFrame width height c =
     (case c of (r, g, b, a) \<Rightarrow> concat (replicate (width * height) [r, g, b, a]))"

text \<open>Four consecutive bytes of a buffer.\<close>

definition cells4 :: "nat list \<Rightarrow> nat \<Rightarrow> nat \<times> nat \<times> nat \<times> nat" where
  "cells4 D i = (D ! i, D ! (i + 1), D ! (i + 2), D ! (i + 3))"

section \<open>Properties of the value noise\<close>

text \<open>
  C7. At integer lattice coordinates \<open>(i, j)\<close>, for every table of the size that
  \<open>generateNoiseTable\<close> creates, \<open>noise2D\<close> returns exactly the table entry of the
  wrapped cell \<open>(|i| mod 512, |j| mod 512)\<close>, which is a cell of the table.
\<close>

theorem noise2D_lattice:
  assumes "length table = 512 * 512"
  shows "noise2D (of_int i) (of_int j) table
           = table ! ((nat \<bar>j\<bar> mod 512) * 512 + nat \<bar>i\<bar> mod 512)
         \<and> (nat \<bar>j\<bar> mod 512) * 512 + nat \<bar>i\<bar> mod 512 < length table"
proof -
  have fl: "\<lfloor>\<bar>of_int k :: real\<bar>\<rfloor> = \<bar>k\<bar>" for k :: int
    by (metis floor_of_int of_int_abs)
  have val: "noise2D (of_int i) (of_int j) table
           = table ! ((nat \<bar>j\<bar> mod 512) * 512 + nat \<bar>i\<bar> mod 512)"
    by (simp add: noise2D_def Let_def fl)
  have "nat \<bar>j\<bar> mod 512 < 512" "nat \<bar>i\<bar> mod 512 < 512"
    by simp_all
  then have "(nat \<bar>j\<bar> mod 512) * 512 + nat \<bar>i\<bar> mod 512 < 512 * 512"
    by linarith
  with val assms show ?thesis
    by simp
qed

theorem noise2D_lattice_witness:
  "noise2D (of_int (- 3)) (of_int 515) (map (\<lambda>k. real k / 262144) [0..<512 * 512])
     = 1539 / 262144"
  using noise2D_lattice [of "map (\<lambda>k. real k / 262144) [0..<512 * 512]" "- 3" 515]
  by simp

text \<open>
  C8. With a single octave, \<open>fbm\<close> is the single sample \<open>noise2D(x, y, table)\<close>:
  the amplitude 0.5 of the only octave cancels against \<open>maxValue = 0.5\<close>.
\<close>

theorem fbm_single_octave:
  "fbm x y table 1 = Some (noise2D x y table)"
  by (simp add: fbm_def)

section \<open>Loops that write one cell per step\<close>

text \<open>
  Two nested index loops are one loop over the pairs of indices, in the same order. A
  loop whose step writes one cell, chosen by the step's index alone, leaves every other
  cell alone and, when no two steps choose the same cell, computes each cell from the
  buffer as it was before the loop.
\<close>

lemma fold_product:
  "fold (\<lambda>a. fold (\<lambda>b. f (a, b)) bs) as s = fold f (List.product as bs) s"
  by (induction as arbitrary: s) (simp_all add: fold_map comp_def)

lemma fold_update_length:
  "length (fold (\<lambda>p xs. xs[k p := g p xs]) ps xs) = length xs"
  by (induction ps arbitrary: xs) simp_all

lemma fold_update_other:
  "j \<notin> k ` set ps \<Longrightarrow> fold (\<lambda>p xs. xs[k p := g p xs]) ps xs ! j = xs ! j"
  by (induction ps arbitrary: xs) simp_all

lemma fold_update_at:
  assumes "p \<in> set ps" "distinct (map k ps)" "k p < length xs"
    and "\<And>q ys. q \<in> set ps \<Longrightarrow> length ys = length xs \<Longrightarrow> ys ! k q = xs ! k q \<Longrightarrow> g q ys = v q"
  shows "fold (\<lambda>p xs. xs[k p := g p xs]) ps xs ! k p = v p"
  using assms
proof (induction ps arbitrary: xs)
  case Nil
  then show ?case by simp
next
  case (Cons q qs)
  show ?case
  proof (cases "p = q")
    case True
    then have "k p \<notin> k ` set qs" using Cons.prems(2) by auto
    then have "fold (\<lambda>p xs. xs[k p := g p xs]) qs (xs[k q := g q xs]) ! k p = (xs[k q := g q xs]) ! k p"
      by (rule fold_update_other)
    also have "\<dots> = g q xs" using True Cons.prems(3) by simp
    also have "\<dots> = v q" using Cons.prems(4)[of q xs] by simp
    finally show ?thesis using True by simp
  next
    case False
    then have pin: "p \<in> set qs" using Cons.prems(1) by simp
    have "fold (\<lambda>p xs. xs[k p := g p xs]) qs (xs[k q := g q xs]) ! k p = v p"
    proof (rule Cons.IH[OF pin])
      show "distinct (map k qs)" using Cons.prems(2) by simp
      show "k p < length (xs[k q := g q xs])" using Cons.prems(3) by simp
      fix r ys assume r: "r \<in> set qs" and l: "length ys = length (xs[k q := g q xs])"
        and e: "ys ! k r = xs[k q := g q xs] ! k r"
      have "k q \<notin> k ` set qs" using Cons.prems(2) by simp
      then have "k r \<noteq> k q" using r by (metis imageI)
      then have "ys ! k r = xs ! k r" using e by simp
      then show "g r ys = v r" using Cons.prems(4)[of r ys] r l by simp
    qed
    then show ?thesis by simp
  qed
qed

section \<open>Properties of the channel quantization\<close>

text \<open>
  C6. For every channel value \<open>v\<close> in \<open>[0, 255]\<close> and every level count \<open>N\<close>,
  quantizing \<open>v\<close> with step \<open>255 / (N - 1)\<close> and quantizing the result again with
  the same \<open>N\<close> returns the same value. This holds of the rounding alone and of the
  rounding followed by the clamp to \<open>[0, 255]\<close>; for \<open>N = 1\<close> both rounds return
  NaN.
\<close>

theorem quantize_idempotent:
  assumes "0 \<le> v" and "v \<le> 255"
  shows "Option.bind (quantize N v) (quantize N) = quantize N v
       \<and> Option.bind (quantizeChannel N v) (quantizeChannel N) = quantizeChannel N v"
proof (cases "N = 1")
  case True then show ?thesis by (simp add: quantizeChannel_def quantize_def clamp255_def)
next
  case False
  define step where "step = 255 / (N - 1)"
  have s0: "step \<noteq> 0" using False by (simp add: step_def)
  define q where "q = (\<lambda>u. of_int (Math_round (u / step)) * step :: real)"
  have qu: "quantize N u = Some (q u)" for u
    using False by (simp add: quantize_def q_def step_def Let_def)
  have qq: "quantizeChannel N u = Some (max 0 (min 255 (q u)))" for u
    by (simp add: quantizeChannel_def qu clamp255_def)
  have idem: "q (q u) = q u" for u using s0 by (simp add: q_def Math_round_def)
  have q0: "q 0 = 0" by (simp add: q_def Math_round_def)
  have mono: "q v \<le> q 255"
  proof (cases "0 < step")
    case True
    then have "v / step \<le> 255 / step" using assms by (simp add: divide_right_mono)
    then have "Math_round (v / step) \<le> Math_round (255 / step)" unfolding Math_round_def by (intro floor_mono) simp
    then show ?thesis unfolding q_def using True by (simp add: mult_right_mono)
  next
    case F: False
    then have neg: "step < 0" using s0 by simp
    then have "255 / step \<le> v / step" using assms by (simp add: divide_right_mono_neg)
    then have "Math_round (255 / step) \<le> Math_round (v / step)" unfolding Math_round_def by (intro floor_mono) simp
    then show ?thesis unfolding q_def using neg by (simp add: mult_right_mono_neg)
  qed
  consider "q v < 0" | "0 \<le> q v" "q v \<le> 255" | "255 < q v" by linarith
  then have "Option.bind (quantizeChannel N v) (quantizeChannel N) = quantizeChannel N v"
  proof cases
    case 1 then show ?thesis using q0 by (simp add: qq)
  next
    case 2 then show ?thesis using idem by (simp add: qq)
  next
    case 3 then show ?thesis using mono by (simp add: qq)
  qed
  then show ?thesis using idem by (simp add: qu)
qed

theorem quantize_idempotent_witness:
  "Option.bind (quantize 6 120) (quantize 6) = quantize 6 120
   \<and> Option.bind (quantizeChannel 6 120) (quantizeChannel 6) = quantizeChannel 6 120
   \<and> quantizeChannel 6 120 = Some 102"
  using quantize_idempotent [of 120 6]
  by (simp add: quantizeChannel_def quantize_def clamp255_def Math_round_def)

section \<open>Properties of the motion detection\<close>

lemma fst_fold_motionStep:
  "fst (fold (motionStep src prev width gridW) ps (m, t))
     = fold (\<lambda>p xs. xs[snd p + fst p * gridW := lift2 (\<lambda>old mo. old * 0.7 + mo * 0.3) (rdF xs (snd p + fst p * gridW))
           (blockMotion src prev (((fst p * 16 + 8) * width + (snd p * 16 + 8)) * 4))]) ps m"
  by (induction ps arbitrary: m t) (simp_all add: motionStep_def Let_def split_beta add.commute)

lemma grid_index_inj:
  "distinct (map (\<lambda>p. snd p + fst p * gridW) (List.product [0..<gridH] [0..<gridW]))"
proof -
  have "inj_on (\<lambda>p. snd p + fst p * gridW) ({0..<gridH} \<times> {0..<gridW})"
  proof (rule inj_onI, clarsimp)
    fix a b c d assume "b < gridW" "d < gridW" "b + a * gridW = d + c * gridW"
    then have "(b + a * gridW) div gridW = (d + c * gridW) div gridW" "(b + a * gridW) mod gridW = (d + c * gridW) mod gridW"
      by simp_all
    then show "a = c \<and> b = d" using \<open>b < gridW\<close> \<open>d < gridW\<close> by simp
  qed
  then show ?thesis by (simp add: distinct_map distinct_product)
qed


lemma block_center_in_frame:
  assumes "gx < width div 16" "gy < height div (16::nat)"
  shows "((gy * 16 + 8) * width + (gx * 16 + 8)) * 4 + 3 < width * height * 4"
proof -
  have x: "gx * 16 + 8 < width" and y: "gy * 16 + 8 < height"
    using assms by linarith+
  have "(gy * 16 + 8) * width + (gx * 16 + 8) < (gy * 16 + 8) * width + width"
    using x by simp
  also have "\<dots> = (gy * 16 + 8 + 1) * width" by (simp add: algebra_simps)
  also have "\<dots> \<le> height * width" using y by (intro mult_le_mono1) simp
  finally show ?thesis by (simp add: mult.commute)
qed

lemma blockMotion_in_range:
  assumes "idx + 3 < length src" "idx + 3 < length prev"
  shows "blockMotion src prev idx
       = Some ((\<bar>real (src ! idx) - real (prev ! idx)\<bar>
              + \<bar>real (src ! (idx + 1)) - real (prev ! (idx + 1))\<bar>
              + \<bar>real (src ! (idx + 2)) - real (prev ! (idx + 2))\<bar>) / 765)"
  using assms by (simp add: blockMotion_def rdB_def lift2_def)

lemma motionMap_detectMotion:
  assumes "prevFrame st = Some prev" "motionMap st = Some m"
    and "length m = (width div 16) * (height div 16)"
  shows "motionMap (snd (detectMotion src width height st))
       = Some (fst (fold (motionStep src prev width (width div 16))
                      (List.product [0..<height div 16] [0..<width div 16]) (m, Some 0)))"
  using assms
  by (simp add: detectMotion_def Let_def fold_product split_beta)

lemma length_fst_fold_motionStep:
  "length (fst (fold (motionStep src prev width gridW) ps (m, t))) = length m"
  unfolding fst_fold_motionStep by (rule fold_update_length)

lemma detectMotion_map_length:
  "\<exists>m. motionMap (snd (detectMotion src width height st)) = Some m
       \<and> length m = (width div 16) * (height div 16)"
proof -
  define m0 where "m0 = (case motionMap st of
                  None \<Rightarrow> replicate ((width div 16) * (height div 16)) (Some 0)
                | Some m \<Rightarrow> if length m \<noteq> (width div 16) * (height div 16)
                            then replicate ((width div 16) * (height div 16)) (Some 0) else m)"
  have l0: "length m0 = (width div 16) * (height div 16)"
    by (simp add: m0_def split: option.splits)
  show ?thesis
  proof (cases "prevFrame st")
    case None
    then show ?thesis using l0 by (simp add: detectMotion_def Let_def m0_def)
  next
    case (Some prev)
    have "length (fst (fold (motionStep src prev width (width div 16))
                      (List.product [0..<height div 16] [0..<width div 16]) (m0, Some 0))) = length m0"
      by (rule length_fst_fold_motionStep)
    then show ?thesis using Some l0
      by (simp add: detectMotion_def Let_def fold_product split_beta m0_def)
  qed
qed

text \<open>
  C4, as the code has it. On a tick with a stored previous frame, frames of the canvas
  size and a motion map of the grid size, the cell of block \<open>(gx, gy)\<close> becomes 0.7
  times its previous value plus 0.3 times the sum of the absolute differences of the
  red, green and blue bytes at the block's centre, divided by \<open>255 * 3\<close>. The three
  channels weigh the same: no luma is computed.
\<close>

theorem detectMotion_block_update:
  assumes "prevFrame st = Some prev" and "motionMap st = Some m"
    and "length m = (width div 16) * (height div 16)"
    and "length src = width * height * 4" and "length prev = width * height * 4"
    and "gx < width div 16" and "gy < height div 16"
    and "m ! (gy * (width div 16) + gx) = Some old"
    and "idx = ((gy * 16 + 8) * width + (gx * 16 + 8)) * 4"
  shows "map_option (\<lambda>m'. m' ! (gy * (width div 16) + gx))
           (motionMap (snd (detectMotion src width height st)))
       = Some (Some (old * 0.7
            + (\<bar>real (src ! idx) - real (prev ! idx)\<bar>
               + \<bar>real (src ! (idx + 1)) - real (prev ! (idx + 1))\<bar>
               + \<bar>real (src ! (idx + 2)) - real (prev ! (idx + 2))\<bar>) / (255 * 3) * 0.3))"
proof -
  define gridW where "gridW = width div 16"
  define k where "k = (\<lambda>p :: nat \<times> nat. snd p + fst p * gridW)"
  define bm where "bm = (\<lambda>p :: nat \<times> nat. blockMotion src prev (((fst p * 16 + 8) * width + (snd p * 16 + 8)) * 4))"
  define g where "g = (\<lambda>p xs. lift2 (\<lambda>old mo. old * 0.7 + mo * 0.3) (rdF xs (k p)) (bm p))"
  define ps where "ps = List.product [0..<height div 16] [0..<gridW]"
  have kin: "k (gy, gx) < length m"
  proof -
    have "gx + gy * gridW < gridW + gy * gridW" using assms(6) by (simp add: gridW_def)
    also have "\<dots> = (gy + 1) * gridW" by simp
    also have "\<dots> \<le> (height div 16) * gridW" using assms(7) by (intro mult_le_mono1) simp
    finally show ?thesis by (simp add: k_def assms(3) gridW_def mult.commute)
  qed
  have "fold (\<lambda>p xs. xs[k p := g p xs]) ps m ! k (gy, gx)
      = lift2 (\<lambda>old mo. old * 0.7 + mo * 0.3) (rdF m (k (gy, gx))) (bm (gy, gx))"
  proof (rule fold_update_at)
    show "(gy, gx) \<in> set ps" using assms(6,7) by (simp add: ps_def gridW_def)
    show "distinct (map k ps)" unfolding k_def ps_def by (rule grid_index_inj)
    show "k (gy, gx) < length m" by (rule kin)
    fix q ys assume "q \<in> set ps" "length ys = length m" "ys ! k q = m ! k q"
    then show "g q ys = lift2 (\<lambda>old mo. old * 0.7 + mo * 0.3) (rdF m (k q)) (bm q)"
      by (simp add: g_def rdF_def)
  qed
  moreover have "idx + 3 < length src" "idx + 3 < length prev"
    using block_center_in_frame[OF assms(6,7)] assms(4,5,9) by simp_all
  then have "bm (gy, gx) = Some ((\<bar>real (src ! idx) - real (prev ! idx)\<bar>
              + \<bar>real (src ! (idx + 1)) - real (prev ! (idx + 1))\<bar>
              + \<bar>real (src ! (idx + 2)) - real (prev ! (idx + 2))\<bar>) / 765)"
    unfolding bm_def using assms(9) by (simp add: blockMotion_in_range)
  moreover have "rdF m (k (gy, gx)) = Some old"
    using kin assms(8) by (simp add: rdF_def k_def add.commute gridW_def)
  ultimately have "fold (\<lambda>p xs. xs[k p := g p xs]) ps m ! k (gy, gx)
      = Some (old * 0.7 + (\<bar>real (src ! idx) - real (prev ! idx)\<bar>
              + \<bar>real (src ! (idx + 1)) - real (prev ! (idx + 1))\<bar>
              + \<bar>real (src ! (idx + 2)) - real (prev ! (idx + 2))\<bar>) / 765 * 0.3)"
    by (simp add: lift2_def)
  then show ?thesis
    unfolding motionMap_detectMotion[OF assms(1-3)] fst_fold_motionStep
    by (simp add: g_def k_def bm_def ps_def gridW_def add.commute)
qed

theorem detectMotion_block_update_witness: "map_option (\<lambda>m'. m' ! (0 * (16 div 16) + 0))
     (motionMap (snd (detectMotion ((replicate 1024 7)[544 := 255, 545 := 3]) 16 16
        \<lparr>prevFrame = Some (replicate 1024 0), motionMap = Some [Some 1],
          globalMotion = Some 0, time = 16, frameCount = 1\<rparr>)))
    = Some (Some (41 / 51))"
proof -
  let ?st = "\<lparr>prevFrame = Some (replicate 1024 0), motionMap = Some [Some 1],
          globalMotion = Some 0, time = 16, frameCount = 1\<rparr>"
  let ?src = "(replicate 1024 (7::nat))[544 := 255, 545 := 3]"
  have h1: "prevFrame ?st = Some (replicate 1024 0)" by simp
  have h2: "motionMap ?st = Some [Some 1]" by simp
  have h3: "length [Some (1::real)] = (16 div 16) * (16 div 16)" by simp
  have h4: "length ?src = 16 * 16 * 4" by simp
  have h5: "length (replicate 1024 (0::nat)) = 16 * 16 * 4" by simp
  have h6: "(0::nat) < 16 div 16" by simp
  have h8: "[Some (1::real)] ! (0 * (16 div 16) + 0) = Some 1" by simp
  have h9: "(544::nat) = ((0 * 16 + 8) * 16 + (0 * 16 + 8)) * 4" by simp
  have s: "?src ! 544 = 255" "?src ! (544 + 1) = 3" "?src ! (544 + 2) = 7" by simp_all
  have p: "replicate 1024 (0::nat) ! 544 = 0" "replicate 1024 (0::nat) ! (544 + 1) = 0" "replicate 1024 (0::nat) ! (544 + 2) = 0" by simp_all
  have "Some (Some (1 * 0.7
            + (\<bar>real (?src ! 544) - real (replicate 1024 (0::nat) ! 544)\<bar>
               + \<bar>real (?src ! (544 + 1)) - real (replicate 1024 (0::nat) ! (544 + 1))\<bar>
               + \<bar>real (?src ! (544 + 2)) - real (replicate 1024 (0::nat) ! (544 + 2))\<bar>) / (255 * 3) * 0.3))
       = Some (Some (41 / 51 :: real))"
    unfolding s p by simp
  with detectMotion_block_update [OF h1 h2 h3 h4 h5 h6 h6 h8 h9] show ?thesis
    by (rule trans)
qed

text \<open>
  C4 as the specification words it fails: between a black previous frame and a frame
  whose block centre is pure red, the cell moves from 0 to \<open>0.3 * (255 / 765) = 1 / 10\<close>,
  where the luma difference would give \<open>0.3 * 0.299 = 897 / 10000\<close>.
\<close>

theorem detectMotion_luma_counterexample:
  "motionMap (snd (detectMotion ((replicate 1024 0)[544 := 255]) 16 16
        \<lparr>prevFrame = Some (replicate 1024 0), motionMap = Some [Some 0],
          globalMotion = Some 0, time = 16, frameCount = 1\<rparr>))
     = Some [Some (1 / 10)]
   \<and> spec_luma_motion_update 0 (255, 0, 0) (0, 0, 0) = 897 / 10000
   \<and> (1 / 10 :: real) \<noteq> 897 / 10000"
proof -
  have bm: "blockMotion ((replicate 1024 0)[544 := 255]) (replicate 1024 0) 544 = Some (1 / 3)"
    by (simp add: blockMotion_def rdB_def lift2_def)
  have "motionMap (snd (detectMotion ((replicate 1024 0)[544 := 255]) 16 16
        \<lparr>prevFrame = Some (replicate 1024 0), motionMap = Some [Some 0],
          globalMotion = Some 0, time = 16, frameCount = 1\<rparr>))
      = Some (fst (fold (motionStep ((replicate 1024 0)[544 := 255]) (replicate 1024 0) 16 (16 div 16))
                      (List.product [0..<16 div 16] [0..<16 div 16]) ([Some 0], Some 0)))"
    by (rule motionMap_detectMotion) simp_all
  also have "\<dots> = Some [Some (1 / 10)]"
    by (simp add: motionStep_def bm rdF_def lift2_def)
  finally have code: "motionMap (snd (detectMotion ((replicate 1024 0)[544 := 255]) 16 16
        \<lparr>prevFrame = Some (replicate 1024 0), motionMap = Some [Some 0],
          globalMotion = Some 0, time = 16, frameCount = 1\<rparr>))
     = Some [Some (1 / 10)]" .
  have "spec_luma_motion_update 0 (255, 0, 0) (0, 0, 0) = 897 / 10000"
    by (simp add: spec_luma_motion_update_def luma_def)
  with code show ?thesis by simp
qed

text \<open>
  C9. With a global motion of zero and a motion map of zeros (of the grid size that
  \<open>detectMotion\<close> gives it, or not yet created), the motion multiplier is 1 at every
  position, whatever the clock \<open>time\<close> and the tick count \<open>frameCount\<close> of the state.
\<close>

theorem motionMultiplier_no_motion:
  assumes "globalMotion st = Some 0"
    and "case motionMap st of None \<Rightarrow> True
         | Some m \<Rightarrow> length m = (width div 16) * (height div 16) \<and> (\<forall>v \<in> set m. v = Some 0)"
  shows "motionMultiplier st x y width height = Some 1"
proof (cases "motionMap st")
  case None
  then show ?thesis using assms(1) by (simp add: motionMultiplier_def getMotionAt_def lift2_def)
next
  case (Some m)
  then have len: "length m = (width div 16) * (height div 16)" and z: "\<forall>v \<in> set m. v = Some 0"
    using assms(2) by simp_all
  have "getMotionAt st x y width height = Some 0"
  proof (cases "\<lfloor>x / 16\<rfloor> < 0 \<or> int (width div 16) \<le> \<lfloor>x / 16\<rfloor> \<or> \<lfloor>y / 16\<rfloor> < 0 \<or> int (height div 16) \<le> \<lfloor>y / 16\<rfloor>")
    case True
    then show ?thesis using Some assms(1) by (simp add: getMotionAt_def Let_def)
  next
    case False
    define gx where "gx = nat \<lfloor>x / 16\<rfloor>"
    define gy where "gy = nat \<lfloor>y / 16\<rfloor>"
    have f: "0 \<le> \<lfloor>x / 16\<rfloor>" "\<lfloor>x / 16\<rfloor> < int (width div 16)"
        "0 \<le> \<lfloor>y / 16\<rfloor>" "\<lfloor>y / 16\<rfloor> < int (height div 16)"
      using False by linarith+
    have b: "gx < width div 16" "gy < height div 16"
      unfolding gx_def gy_def using f by linarith+
    have "gy * (width div 16) + gx < gy * (width div 16) + width div 16" using b by simp
    also have "\<dots> = (gy + 1) * (width div 16)" by (simp add: algebra_simps)
    also have "\<dots> \<le> (height div 16) * (width div 16)" using b by (intro mult_le_mono1) simp
    finally have "gy * (width div 16) + gx < length m" by (simp add: len mult.commute)
    then have "rdF m (gy * (width div 16) + gx) = Some 0"
      using z by (simp add: rdF_def)
    then show ?thesis using False Some by (simp add: getMotionAt_def Let_def gx_def gy_def)
  qed
  then show ?thesis using assms(1) by (simp add: motionMultiplier_def lift2_def)
qed

theorem motionMultiplier_no_motion_witness:
  "motionMultiplier \<lparr>prevFrame = None, motionMap = Some (replicate 6 (Some 0)),
       globalMotion = Some 0, time = 1600, frameCount = 100\<rparr> 40 20 48 32 = Some 1"
  using motionMultiplier_no_motion [of "\<lparr>prevFrame = None, motionMap = Some (replicate 6 (Some 0)),
       globalMotion = Some 0, time = 1600, frameCount = 100\<rparr>" 48 32 40 20]
  by simp

section \<open>Properties of the cell brightness\<close>

lemma box_offsets: "[- 1 .. (2::int)] = [- 1, 0, 1, 2]"
  by (simp add: upto.simps)

lemma Math_pow_in_unit:
  assumes "0 \<le> e" "0 \<le> u" "u \<le> 1"
  shows "in_unit (Math_pow (Some u) e)"
proof (cases "e = 0")
  case True
  then show ?thesis by (simp add: Math_pow_def in_unit_def)
next
  case False
  then have pos: "0 < e" using assms(1) by simp
  show ?thesis
  proof (cases "u = 0")
    case True
    then show ?thesis using pos by (simp add: Math_pow_def in_unit_def)
  next
    case u: False
    have "u powr e \<le> 1" using assms by (intro powr_le1) simp_all
    then show ?thesis using False u by (simp add: Math_pow_def in_unit_def)
  qed
qed

lemma adjustBrightness_in_unit:
  assumes "sens \<le> 10"
  shows "in_unit (adjustBrightness con sens (Some b))"
proof -
  have "0 \<le> 2 - sens / 5" using assms by simp
  moreover have "0 \<le> max 0 (min 1 ((b - 0.5) * (con / 5) + 0.5))"
    "max 0 (min 1 ((b - 0.5) * (con / 5) + 0.5)) \<le> 1" by simp_all
  ultimately show ?thesis
    unfolding adjustBrightness_def Let_def option.map by (rule Math_pow_in_unit)
qed

lemma getBrightnessAt_no_frame:
  "brightnessData st = None \<Longrightarrow> getBrightnessAt st gridX gridY = Finite 0"
  by (simp add: getBrightnessAt_def)

lemma sampleAt_uniform:
  "sampleAt (replicate 64 128) 4 (Some qx) (Some qy) =
     (if nat ((qy * 4 + qx) * 4) + 2 < 64 then Some (128 / 255) else None)"
  by (simp add: sampleAt_def Let_def rdB_def lift2_def)

text \<open>
  Sampling a frame of the video size whose bytes are at most 255, on a grid with at
  least one column and one row, gives a brightness in \<open>[0, 1]\<close>.
\<close>

lemma fold_samples_bounds:
  assumes "\<forall>d \<in> set ds. \<exists>t. f d = Some t \<and> 0 \<le> t \<and> t \<le> c"
  shows "\<exists>r. fold (\<lambda>d acc. lift2 (+) acc (f d)) ds (Some a) = Some r
           \<and> a \<le> r \<and> r \<le> a + c * real (length ds)"
  using assms
proof (induction ds arbitrary: a)
  case Nil
  then show ?case by simp
next
  case (Cons d ds)
  then obtain t where t: "f d = Some t" "0 \<le> t" "t \<le> c" by auto
  from Cons.IH[of "a + t"] Cons.prems obtain r where
    r: "fold (\<lambda>d acc. lift2 (+) acc (f d)) ds (Some (a + t)) = Some r" "a + t \<le> r"
       "r \<le> a + t + c * real (length ds)" by auto
  then show ?case using t by (simp add: lift2_def algebra_simps)
qed

lemma clampCoord_range:
  assumes "0 < gridN" "0 < videoN"
  shows "\<exists>q. clampCoord videoN (videoCoord g gridN videoN) d = Some q \<and> 0 \<le> q \<and> q < int videoN"
  using assms by (simp add: clampCoord_def videoCoord_def)

lemma sampleAt_bounds:
  assumes "length data = videoWidth st * videoHeight st * 4" "\<forall>v \<in> set data. v \<le> 255"
    "0 \<le> qx" "qx < int (videoWidth st)" "0 \<le> qy" "qy < int (videoHeight st)"
  shows "\<exists>t. sampleAt data (videoWidth st) (Some qx) (Some qy) = Some t \<and> 0 \<le> t \<and> t \<le> 1"
proof -
  define idx where "idx = nat ((qy * int (videoWidth st) + qx) * 4)"
  have "nat qy * videoWidth st + nat qx < nat qy * videoWidth st + videoWidth st"
    using assms(3,4) by simp
  also have "\<dots> = (nat qy + 1) * videoWidth st" by (simp add: algebra_simps)
  also have "\<dots> \<le> videoHeight st * videoWidth st"
    using assms(5,6) by (intro mult_le_mono1) simp
  finally have "(nat qy * videoWidth st + nat qx) * 4 + 3 < length data"
    by (simp add: assms(1) mult.commute)
  moreover have "idx = (nat qy * videoWidth st + nat qx) * 4"
    using assms(3,5) by (simp add: idx_def nat_add_distrib nat_mult_distrib)
  ultimately have in_range: "idx + 2 < length data" by simp
  then have b: "data ! idx \<le> 255" "data ! (idx + 1) \<le> 255" "data ! (idx + 2) \<le> 255"
    using assms(2) by (simp_all add: nth_mem)
  have eq: "sampleAt data (videoWidth st) (Some qx) (Some qy)
      = Some ((real (data ! idx) * 0.299 + real (data ! (idx + 1)) * 0.587
               + real (data ! (idx + 2)) * 0.114) / 255)"
    using in_range by (simp add: sampleAt_def Let_def rdB_def lift2_def idx_def)
  have "real (data ! idx) \<le> 255" "real (data ! (idx + 1)) \<le> 255" "real (data ! (idx + 2)) \<le> 255"
    using b by simp_all
  then have le: "(real (data ! idx) * 0.299 + real (data ! (idx + 1)) * 0.587
               + real (data ! (idx + 2)) * 0.114) / 255 \<le> 1" by simp
  have ge: "0 \<le> (real (data ! idx) * 0.299 + real (data ! (idx + 1)) * 0.587
               + real (data ! (idx + 2)) * 0.114) / 255" by simp
  show ?thesis unfolding eq using ge le by blast
qed

lemma sampleBrightness_in_unit:
  assumes "0 < gridWidth st" "0 < gridHeight st" "0 < videoWidth st" "0 < videoHeight st"
    and "length data = videoWidth st * videoHeight st * 4" and "\<forall>v \<in> set data. v \<le> 255"
  shows "\<exists>b. sampleBrightness st data gridX gridY = Some b \<and> 0 \<le> b \<and> b \<le> 1"
proof -
  define vx where "vx = videoCoord gridX (gridWidth st) (videoWidth st)"
  define vy where "vy = videoCoord gridY (gridHeight st) (videoHeight st)"
  define f where "f = (\<lambda>dx dy. sampleAt data (videoWidth st) (clampCoord (videoWidth st) vx dx)
                           (clampCoord (videoHeight st) vy dy))"
  have sample: "\<exists>t. f dx dy = Some t \<and> 0 \<le> t \<and> t \<le> 1" for dx dy
  proof -
    obtain qx where qx: "clampCoord (videoWidth st) vx dx = Some qx" "0 \<le> qx" "qx < int (videoWidth st)"
      using clampCoord_range[OF assms(1,3)] unfolding vx_def by blast
    obtain qy where qy: "clampCoord (videoHeight st) vy dy = Some qy" "0 \<le> qy" "qy < int (videoHeight st)"
      using clampCoord_range[OF assms(2,4)] unfolding vy_def by blast
    show ?thesis unfolding f_def qx(1) qy(1)
      by (rule sampleAt_bounds[OF assms(5,6) qx(2,3) qy(2,3)])
  qed
  define box where "box = [- 2 .. 2 :: int]"
  have lbox: "real (length box) = 5" by (simp add: box_def)
  have inner: "\<exists>r. fold (\<lambda>dy acc. lift2 (+) acc (f dx dy)) box (Some a) = Some r
           \<and> a \<le> r \<and> r \<le> a + 5" for dx a
    using fold_samples_bounds[of box "f dx" 1 a] sample lbox by simp
  have outer: "\<exists>r. fold (\<lambda>dx. fold (\<lambda>dy acc. lift2 (+) acc (f dx dy)) box) ds (Some a) = Some r
           \<and> a \<le> r \<and> r \<le> a + 5 * real (length ds)" for ds a
  proof (induction ds arbitrary: a)
    case Nil
    then show ?case by simp
  next
    case (Cons d ds)
    obtain r1 where r1: "fold (\<lambda>dy acc. lift2 (+) acc (f d dy)) box (Some a) = Some r1"
      "a \<le> r1" "r1 \<le> a + 5" using inner by blast
    obtain r where "fold (\<lambda>dx. fold (\<lambda>dy acc. lift2 (+) acc (f dx dy)) box) ds (Some r1) = Some r"
      "r1 \<le> r" "r \<le> r1 + 5 * real (length ds)" using Cons.IH by blast
    then show ?case using r1 by simp
  qed
  obtain r where r: "fold (\<lambda>dx. fold (\<lambda>dy acc. lift2 (+) acc (f dx dy)) box) box (Some 0) = Some r"
      "0 \<le> r" "r \<le> 25" using outer[of box 0] lbox by auto
  have "sampleBrightness st data gridX gridY = Some (r / 25)"
    using r(1) unfolding sampleBrightness_def Let_def vx_def vy_def f_def box_def by simp
  moreover have "0 \<le> r / 25" "r / 25 \<le> 1" using r(2,3) by simp_all
  ultimately show ?thesis by blast
qed

text \<open>
  C1, as the code has it. For every sampled brightness, every contrast and every
  brightness sensitivity of at most 10 (the exponent \<open>2 - sensitivity / 5\<close> is then
  not negative), the brightness that \<open>getBrightnessAt\<close> returns lies within
  \<open>[0, 1]\<close>. The clamp comes before the exponent, not after it.
\<close>

theorem getBrightnessAt_in_unit:
  assumes "brightnessSensitivity st \<le> 10"
    and "brightnessData st = Some data"
    and "sampleBrightness st data gridX gridY = Some b"
  shows "in_unit (getBrightnessAt st gridX gridY)"
  using assms by (simp add: getBrightnessAt_def adjustBrightness_in_unit)

theorem getBrightnessAt_in_unit_witness:
  "in_unit (getBrightnessAt
     \<lparr>gridWidth = 2, gridHeight = 2, videoWidth = 4, videoHeight = 4,
      brightnessData = Some (replicate 64 128), charSize = 12, fallSpeed = 5,
      brightnessSensitivity = 6, explosionRate = 3, contrast = 7,
      grid = [], streams = [], explosions = []\<rparr> 0 0)"
proof -
  let ?st = "\<lparr>gridWidth = 2, gridHeight = 2, videoWidth = 4, videoHeight = 4,
      brightnessData = Some (replicate 64 128), charSize = 12, fallSpeed = 5,
      brightnessSensitivity = 6, explosionRate = 3, contrast = 7,
      grid = [], streams = [], explosions = []\<rparr>"
  have s: "sampleBrightness ?st (replicate 64 128) 0 0 = Some (128 / 255)"
    by (simp add: sampleBrightness_def videoCoord_def clampCoord_def box_offsets
        sampleAt_uniform lift2_def)
  have "brightnessSensitivity ?st \<le> 10" "brightnessData ?st = Some (replicate 64 128)"
    by simp_all
  then show ?thesis using s by (rule getBrightnessAt_in_unit)
qed

text \<open>
  C1 for every sensitivity fails: on a uniform grey frame of bytes 128, with contrast 5
  and sensitivity 15, the sampled brightness is \<open>128 / 255\<close>, the exponent is \<open>-1\<close>
  and the result is \<open>255 / 128\<close>, above 1.
\<close>

theorem getBrightnessAt_counterexample:
  "sampleBrightness
     \<lparr>gridWidth = 2, gridHeight = 2, videoWidth = 4, videoHeight = 4,
      brightnessData = Some (replicate 64 128), charSize = 12, fallSpeed = 5,
      brightnessSensitivity = 15, explosionRate = 3, contrast = 5,
      grid = [], streams = [], explosions = []\<rparr> (replicate 64 128) 0 0 = Some (128 / 255)
   \<and> getBrightnessAt
     \<lparr>gridWidth = 2, gridHeight = 2, videoWidth = 4, videoHeight = 4,
      brightnessData = Some (replicate 64 128), charSize = 12, fallSpeed = 5,
      brightnessSensitivity = 15, explosionRate = 3, contrast = 5,
      grid = [], streams = [], explosions = []\<rparr> 0 0 = Finite (255 / 128)
   \<and> \<not> in_unit (Finite (255 / 128))"
proof -
  let ?st = "\<lparr>gridWidth = 2, gridHeight = 2, videoWidth = 4, videoHeight = 4,
      brightnessData = Some (replicate 64 128), charSize = 12, fallSpeed = 5,
      brightnessSensitivity = 15, explosionRate = 3, contrast = 5,
      grid = [], streams = [], explosions = []\<rparr>"
  have s: "sampleBrightness ?st (replicate 64 128) 0 0 = Some (128 / 255)"
    by (simp add: sampleBrightness_def videoCoord_def clampCoord_def box_offsets
        sampleAt_uniform lift2_def)
  have p: "(128 / 255 :: real) powr (- 1) = 255 / 128"
    by (simp add: powr_neg_one)
  have "adjustBrightness 5 15 (Some (128 / 255)) = Finite (255 / 128)"
    using p by (simp add: adjustBrightness_def Math_pow_def)
  then have "getBrightnessAt ?st 0 0 = Finite (255 / 128)"
    unfolding getBrightnessAt_def using s by simp
  then show ?thesis using s by (simp add: in_unit_def)
qed

section \<open>Properties of the explosion pool\<close>

lemma updateExplosions_loop_survivors:
  "i \<le> length ps \<Longrightarrow>
   map forgetChar (snd (updateExplosions_loop rnd i (k, ps)))
     = filter (\<lambda>p. 0 < life p) (map (\<lambda>p. forgetChar (moveParticle p)) (take i ps))
       @ map forgetChar (drop i ps)"
proof (induction i arbitrary: k ps)
  case 0
  then show ?case by simp
next
  case (Suc i)
  then have i: "i < length ps" by simp
  define p where "p = moveParticle (ps ! i)"
  define k' where "k' = (if rnd k < 0.05 then k + 2 else k + 1)"
  define p' where "p' = (if rnd k < 0.05 then p\<lparr>p_char := getRandomChar (rnd (k + 1))\<rparr> else p)"
  define ps'' where "ps'' = (if life p' \<le> 0 then take i (ps[i := p']) @ drop (Suc i) (ps[i := p']) else ps[i := p'])"
  have step: "updateExplosions_loop rnd (Suc i) (k, ps) = updateExplosions_loop rnd i (k', ps'')"
    by (simp add: Let_def p_def k'_def p'_def ps''_def)
  have fc: "forgetChar p' = forgetChar p" and lf: "life p' = life p"
    by (simp_all add: p'_def forgetChar_def)
  have tk: "take (Suc i) ps = take i ps @ [ps ! i]"
    using i by (simp add: take_Suc_conv_app_nth)
  show ?case
  proof (cases "life p' \<le> 0")
    case True
    then have eq: "ps'' = take i ps @ drop (Suc i) ps"
      by (simp add: ps''_def)
    have len: "i \<le> length ps''" using i by (simp add: eq)
    have t: "take i ps'' = take i ps" and d: "drop i ps'' = drop (Suc i) ps"
      using i by (simp_all add: eq)
    have dead: "\<not> 0 < life (forgetChar (moveParticle (ps ! i)))"
      using True lf by (simp add: forgetChar_def p_def)
    show ?thesis
      unfolding step Suc.IH[OF len] t d tk using dead by simp
  next
    case False
    then have eq: "ps'' = ps[i := p']"
      by (simp add: ps''_def)
    have len: "i \<le> length ps''" using i by (simp add: eq)
    have t: "take i ps'' = take i ps" by (simp add: eq)
    have d: "drop i ps'' = p' # drop (Suc i) ps"
      using i by (simp add: eq drop_update_cancel flip: Cons_nth_drop_Suc)
    have alive: "0 < life (forgetChar (moveParticle (ps ! i)))"
      using False lf by (simp add: forgetChar_def p_def)
    show ?thesis
      unfolding step Suc.IH[OF len] t d tk using alive fc by (simp add: p_def)
  qed
qed

text \<open>
  C2. After \<open>updateExplosions\<close>, whatever the pool was before, the pool has at most
  500 particles, and it is the tail of the particles that outlived the step: when more
  than 500 are left, those at the front of the pool, the oldest, are dropped. Up to the
  random glyph changes, the survivors are the moved particles with a positive life, in
  the order of the pool.
\<close>

theorem updateExplosions_cap:
  "length (snd (updateExplosions rnd k ps)) \<le> 500
   \<and> snd (updateExplosions rnd k ps)
       = drop (length (snd (updateExplosions_loop rnd (length ps) (k, ps))) - 500)
           (snd (updateExplosions_loop rnd (length ps) (k, ps)))
   \<and> map forgetChar (snd (updateExplosions rnd k ps))
       = drop (length (filter (\<lambda>p. 0 < life p) (map (\<lambda>p. forgetChar (moveParticle p)) ps)) - 500)
           (filter (\<lambda>p. 0 < life p) (map (\<lambda>p. forgetChar (moveParticle p)) ps))"
proof -
  define sv where "sv = snd (updateExplosions_loop rnd (length ps) (k, ps))"
  have out: "snd (updateExplosions rnd k ps) = drop (length sv - 500) sv"
    by (simp add: updateExplosions_def sv_def split_beta)
  have "map forgetChar sv = filter (\<lambda>p. 0 < life p) (map (\<lambda>p. forgetChar (moveParticle p)) ps)"
    unfolding sv_def using updateExplosions_loop_survivors[of "length ps" ps rnd k] by simp
  then have "map forgetChar (drop (length sv - 500) sv)
      = drop (length (filter (\<lambda>p. 0 < life p) (map (\<lambda>p. forgetChar (moveParticle p)) ps)) - 500)
           (filter (\<lambda>p. 0 < life p) (map (\<lambda>p. forgetChar (moveParticle p)) ps))"
    by (metis drop_map length_map)
  moreover have "length (drop (length sv - 500) sv) \<le> 500" by simp
  ultimately show ?thesis unfolding out sv_def[symmetric] by simp
qed

section \<open>Properties of the streams\<close>

lemma random_length_bounds:
  assumes "0 \<le> r" "r < 1"
  shows "5 \<le> 5 + \<lfloor>r * 15\<rfloor>" "5 + \<lfloor>r * 15 :: real\<rfloor> \<le> 19"
proof -
  have "0 \<le> r * 15" "r * 15 < 15" using assms by simp_all
  then have "0 \<le> \<lfloor>r * 15\<rfloor>" "\<lfloor>r * 15\<rfloor> < 15" by (simp_all add: floor_less_iff)
  then show "5 \<le> 5 + \<lfloor>r * 15\<rfloor>" "5 + \<lfloor>r * 15 :: real\<rfloor> \<le> 19" by simp_all
qed

lemma initStream_ok:
  "0 \<le> rnd (k + 2) \<Longrightarrow> rnd (k + 2) < 1 \<Longrightarrow> stream_ok (initStream rnd k x gh)"
  using random_length_bounds[of "rnd (k + 2)"] by (simp add: initStream_def stream_ok_def)

lemma updateStream_ok:
  assumes "\<forall>i. 0 \<le> rnd i \<and> rnd i < 1" "stream_ok s" "updateStream rnd fs gh g k s = Inr (k', s')"
  shows "stream_ok s'"
  using assms random_length_bounds[of "rnd (k + 1)"]
  by (auto simp: updateStream_def stream_ok_def split: sum.splits if_splits)

lemma updateStreams_ok:
  assumes "\<forall>i. 0 \<le> rnd i \<and> rnd i < 1"
  shows "list_all stream_ok ss \<Longrightarrow> list_all stream_ok (snd (snd (updateStreams rnd fs gh g k ss)))"
proof (induction ss arbitrary: k)
  case Nil
  then show ?case by simp
next
  case (Cons s ss)
  show ?case
  proof (cases "updateStream rnd fs gh g k s")
    case (Inl e)
    then show ?thesis using Cons.prems by simp
  next
    case (Inr r)
    obtain k' s' where r: "r = (k', s')" by (cases r)
    have "stream_ok s'" using updateStream_ok[OF assms _ Inr[unfolded r]] Cons.prems by simp
    moreover have "list_all stream_ok (snd (snd (updateStreams rnd fs gh g k' ss)))"
      using Cons.IH Cons.prems by simp
    ultimately show ?thesis using Inr r by (simp add: split_beta)
  qed
qed

text \<open>
  \<open>updateStreams\<close> runs the loop body on the streams in order. A stream is updated as
  the body says, from the position in the random numbers that the streams before it
  leave, unless one of those raised an exception, which ends the loop. On a grid that
  has the column of every stream, with \<open>gridHeight\<close> rows, no exception is raised.
\<close>

lemma updateStreams_abort:
  "updateStream rnd fs gh g k s = Inl e \<Longrightarrow>
   updateStreams rnd fs gh g k (s # ss) = (Some e, k, s # ss)"
  by simp

lemma length_updateStreams:
  "length (snd (snd (updateStreams rnd fs gh g k ss))) = length ss"
proof (induction ss arbitrary: k)
  case Nil
  then show ?case by simp
next
  case (Cons s ss)
  show ?case
  proof (cases "updateStream rnd fs gh g k s")
    case (Inl e)
    then show ?thesis by simp
  next
    case (Inr r)
    then show ?thesis using Cons.IH[of "fst r"] by (simp add: split_beta)
  qed
qed


lemma columnTotal_ok:
  "x < length g \<Longrightarrow> gh \<le> length (g ! x) \<Longrightarrow> \<exists>t. columnTotal g x gh = Inr t"
proof -
  assume a: "x < length g" "gh \<le> length (g ! x)"
  have "\<forall>y \<in> set ys. y < length (g ! x) \<Longrightarrow>
        \<exists>t. fold (\<lambda>y acc. case acc of
                      Inl e \<Rightarrow> Inl e
                    | Inr t \<Rightarrow> if x < length g \<and> y < length (g ! x)
                               then Inr (t + brightness (g ! x ! y)) else Inl TypeError)
       ys (Inr a0) = Inr t" for ys a0
    using a(1) by (induction ys arbitrary: a0) simp_all
  from this[of "[0..<gh]" 0] a(2) show ?thesis by (auto simp: columnTotal_def)
qed

lemma updateStreams_no_exception:
  "\<forall>s \<in> set ss. s_x s < length g \<and> gh \<le> length (g ! s_x s) \<Longrightarrow>
   fst (updateStreams rnd fs gh g k ss) = None"
proof (induction ss arbitrary: k)
  case Nil
  then show ?case by simp
next
  case (Cons s ss)
  then obtain t where "columnTotal g (s_x s) gh = Inr t"
    using columnTotal_ok[of "s_x s" g gh] by auto
  then have "\<exists>y. advanceStream fs gh g s = Inr y"
    by (simp add: advanceStream_def Let_def)
  then have "\<exists>r. updateStream rnd fs gh g k s = Inr r"
    by (auto simp: updateStream_def)
  then obtain r where "updateStream rnd fs gh g k s = Inr r" by blast
  then show ?case using Cons by (simp add: split_beta)
qed




section \<open>Properties of the cel-shading passes\<close>

text \<open>
  Pixels are stored row by row, four bytes each; the first pass writes the interior
  pixels, each once, with bytes that depend on the source frame alone.
\<close>

lemma row_major_inj:
  assumes "x < w" "x' < w" "y * w + x = y' * w + (x'::nat)"
  shows "y = y' \<and> x = x'"
proof -
  have "(y * w + x) div w = (y' * w + x') div w" "(y * w + x) mod w = (y' * w + x') mod w"
    using assms(3) by simp_all
  then show ?thesis using assms(1,2) by simp
qed

lemma row_major_bound:
  assumes "x < w" "y < (h::nat)"
  shows "y * w + x < w * h"
proof -
  have "y * w + x < y * w + w" using assms(1) by simp
  also have "\<dots> = (y + 1) * w" by (simp add: algebra_simps)
  also have "\<dots> \<le> h * w" using assms(2) by (intro mult_le_mono1) simp
  finally show ?thesis by (simp add: mult.commute)
qed

lemma length_writePixel: "length (writePixel D idx c) = length D"
  by (cases c) (simp add: writePixel_def)

lemma nth_writePixel_other:
  "j < idx \<or> idx + 3 < j \<Longrightarrow> writePixel D idx c ! j = D ! j"
  by (cases c) (auto simp: writePixel_def)

lemma nth_writePixel:
  "idx + 3 < length D \<Longrightarrow>
   writePixel D idx (r, g, b, a) ! idx = r \<and> writePixel D idx (r, g, b, a) ! (idx + 1) = g \<and>
   writePixel D idx (r, g, b, a) ! (idx + 2) = b \<and> writePixel D idx (r, g, b, a) ! (idx + 3) = a"
  by (simp add: writePixel_def nth_list_update)



lemma pixelAt_cells4: "pixelAt D w x y = cells4 D ((y * w + x) * 4)"
  unfolding pixelAt_def cells4_def Let_def ..

lemma cells4_writePixel:
  "i + 3 < length D \<Longrightarrow> cells4 (writePixel D i c) i = c"
  using nth_writePixel[of i D] by (cases c) (simp add: cells4_def)

lemma cells4_writePixel_other:
  assumes "n' \<noteq> (n::nat)"
  shows "cells4 (writePixel D (n' * 4) c) (n * 4) = cells4 D (n * 4)"
proof -
  have "n * 4 + d < n' * 4 \<or> n' * 4 + 3 < n * 4 + d" if "d < 4" for d
    using assms that by arith
  then have "writePixel D (n' * 4) c ! (n * 4 + d) = D ! (n * 4 + d)" if "d < 4" for d
    using that by (intro nth_writePixel_other) simp
  from this[of 0] this[of 1] this[of 2] this[of 3] show ?thesis
    by (simp add: cells4_def)
qed

lemma snd_fold_pass1Pixel:
  "snd (fold (pass1Pixel P src w) ps (E, D))
     = fold (\<lambda>p D. writePixel D ((fst p * w + snd p) * 4) (shadedAt P src ((fst p * w + snd p) * 4))) ps D"
  by (induction ps arbitrary: E D) (simp_all add: pass1Pixel_def split_beta)

lemma fst_fold_pass1Pixel:
  "fst (fold (pass1Pixel P src w) ps (E, D))
     = fold (\<lambda>p E. E[fst p * w + snd p := edgeMagnitude src w (snd p) (fst p)]) ps E"
  by (induction ps arbitrary: E D) (simp_all add: pass1Pixel_def split_beta)

lemma length_fold_writePixel:
  "length (fold (\<lambda>p D. writePixel D (k p) (v p)) ps D) = length D"
  by (induction ps arbitrary: D) (simp_all add: length_writePixel)

lemma cells4_fold_other:
  "\<forall>p \<in> set ps. k p \<noteq> n \<Longrightarrow>
   cells4 (fold (\<lambda>p D. writePixel D (k p * 4) (v p)) ps D) (n * 4) = cells4 D (n * 4)"
  by (induction ps arbitrary: D) (simp_all add: cells4_writePixel_other)

lemma cells4_fold_at:
  assumes "q \<in> set ps" "distinct (map k ps)" "k q * 4 + 3 < length D"
  shows "cells4 (fold (\<lambda>p D. writePixel D (k p * 4) (v p)) ps D) (k q * 4) = v q"
  using assms
proof (induction ps arbitrary: D)
  case Nil
  then show ?case by simp
next
  case (Cons p ps)
  show ?case
  proof (cases "p = q")
    case True
    have "k q \<notin> k ` set ps" using Cons.prems(2) True by simp
    then have "\<forall>p \<in> set ps. k p \<noteq> k q" by (metis imageI)
    then have "cells4 (fold (\<lambda>p D. writePixel D (k p * 4) (v p)) ps (writePixel D (k q * 4) (v q))) (k q * 4)
        = cells4 (writePixel D (k q * 4) (v q)) (k q * 4)"
      by (rule cells4_fold_other)
    also have "\<dots> = v q" using Cons.prems(3) by (rule cells4_writePixel)
    finally show ?thesis using True by simp
  next
    case False
    then have "q \<in> set ps" using Cons.prems(1) by simp
    moreover have "distinct (map k ps)" using Cons.prems(2) by simp
    moreover have "k q * 4 + 3 < length (writePixel D (k p * 4) (v p))"
      using Cons.prems(3) by (simp add: length_writePixel)
    ultimately have "cells4 (fold (\<lambda>p D. writePixel D (k p * 4) (v p)) ps (writePixel D (k p * 4) (v p))) (k q * 4) = v q"
      by (rule Cons.IH)
    then show ?thesis by simp
  qed
qed

lemma interior_distinct:
  "distinct (map (\<lambda>p. fst p * w + snd p) (List.product [1..<h - 1] [1..<w - 1]))"
proof -
  have "inj_on (\<lambda>p. fst p * w + snd p) ({1..<h - 1} \<times> {1..<w - 1})"
  proof (rule inj_onI)
    fix p q :: "nat \<times> nat"
    assume "p \<in> {1..<h - 1} \<times> {1..<w - 1}" "q \<in> {1..<h - 1} \<times> {1..<w - 1}"
      and e: "fst p * w + snd p = fst q * w + snd q"
    then have "snd p < w" "snd q < w" by auto
    from row_major_inj[OF this e] show "p = q" by (simp add: prod_eq_iff)
  qed
  then show ?thesis by (simp add: distinct_map distinct_product)
qed

lemma toUint8Clamp_zero: "toUint8Clamp (Some 0) = 0"
  by (simp add: toUint8Clamp_def)

lemma darken_zero: "D ! j = 0 \<Longrightarrow> darken d i D ! j = 0"
  by (cases "j = nat i") (simp_all add: darken_def toUint8Clamp_zero)

lemma length_darken: "length (darken d i D) = length D"
  by (simp add: darken_def)

lemma pass2Pixel_zero: "D ! j = 0 \<Longrightarrow> pass2Pixel edges w t p D ! j = 0"
  by (cases p) (simp add: pass2Pixel_def Let_def darken_zero split: option.splits)

lemma fold_zero:
  assumes "\<And>p D. D ! j = (0::nat) \<Longrightarrow> f p D ! j = 0"
  shows "D ! j = 0 \<Longrightarrow> fold f ps D ! j = 0"
  by (induction ps arbitrary: D) (simp_all add: assms)

lemma pass2_zero: "D ! j = 0 \<Longrightarrow> pass2 edges w h t D ! j = 0"
  unfolding pass2_def
  by (intro fold_zero) (simp_all add: pass2Pixel_zero)

lemma pass1_dst:
  "snd (pass1 P src w h (E, D))
     = fold (\<lambda>p D. writePixel D ((fst p * w + snd p) * 4) (shadedAt P src ((fst p * w + snd p) * 4)))
         (List.product [1..<h - 1] [1..<w - 1]) D"
  by (simp add: pass1_def fold_product snd_fold_pass1Pixel)

lemma cells4_zero_pass2:
  "cells4 D i = (0, 0, 0, 0) \<Longrightarrow> cells4 (pass2 edges w h t D) i = (0, 0, 0, 0)"
  by (simp add: cells4_def pass2_zero)

lemma fst_drawFrame:
  "fst (drawFrame P w h src)
     = pass2 (fst (pass1 P src w h (replicate (w * h) (Some 0), replicate (w * h * 4) 0))) w h
         \<lfloor>edgeThickness P\<rfloor>
         (snd (pass1 P src w h (replicate (w * h) (Some 0), replicate (w * h * 4) 0)))"
  by (simp add: drawFrame_def split_beta)

lemma border_not_interior:
  assumes "x < w" "y < h" "x = 0 \<or> x = w - 1 \<or> y = 0 \<or> y = h - 1"
  shows "\<forall>p \<in> set (List.product [1..<h - 1] [1..<w - 1]). fst p * w + snd p \<noteq> y * w + x"
proof
  fix p assume "p \<in> set (List.product [1..<h - 1] [1..<w - 1])"
  then have p: "1 \<le> fst p" "fst p < h - 1" "1 \<le> snd p" "snd p < w - 1" by auto
  show "fst p * w + snd p \<noteq> y * w + x"
  proof
    assume e: "fst p * w + snd p = y * w + x"
    have "snd p < w" using p(4) by simp
    from row_major_inj[OF this assms(1) e] have "fst p = y" "snd p = x" by simp_all
    then show False using p assms(3) by auto
  qed
qed

text \<open>A frame of one colour: its bytes, its luminance, its gradient.\<close>

lemma concat_replicate4_nth:
  "n < N \<Longrightarrow> d < 4 \<Longrightarrow> concat (replicate N [r, g, b, a]) ! (n * 4 + d) = [r, g, b, a] ! d"
proof (induction N arbitrary: n)
  case 0
  then show ?case by simp
next
  case (Suc N)
  show ?case
  proof (cases n)
    case 0
    have "d = 0 \<or> d = 1 \<or> d = 2 \<or> d = 3" using Suc.prems(2) by arith
    then show ?thesis using 0 by auto
  next
    case (Suc m)
    then have "m < N" using Suc.prems(1) by simp
    from Suc.IH[OF this Suc.prems(2)] have "concat (replicate N [r, g, b, a]) ! (m * 4 + d) = [r, g, b, a] ! d" .
    moreover have "([r, g, b, a] @ concat (replicate N [r, g, b, a])) ! (n * 4 + d)
        = concat (replicate N [r, g, b, a]) ! (m * 4 + d)"
      using Suc by (simp add: nth_append)
    ultimately show ?thesis by simp
  qed
qed

lemma length_uniformFrame: "length (uniformFrame w h c) = w * h * 4"
  by (cases c) (simp add: uniformFrame_def length_concat sum_list_replicate)

lemma rdB_uniformFrame:
  assumes "n < w * h"
  shows "rdB (uniformFrame w h (r, g, b, a)) (n * 4) = Some (real r)"
    "rdB (uniformFrame w h (r, g, b, a)) (n * 4 + 1) = Some (real g)"
    "rdB (uniformFrame w h (r, g, b, a)) (n * 4 + 2) = Some (real b)"
proof -
  have l: "n * 4 + 3 < length (uniformFrame w h (r, g, b, a))"
    using assms by (simp add: length_uniformFrame)
  have "uniformFrame w h (r, g, b, a) ! (n * 4 + d) = [r, g, b, a] ! d" if "d < 4" for d
    unfolding uniformFrame_def prod.case using assms that by (rule concat_replicate4_nth)
  from this[of 0] this[of 1] this[of 2] l
  show "rdB (uniformFrame w h (r, g, b, a)) (n * 4) = Some (real r)"
    "rdB (uniformFrame w h (r, g, b, a)) (n * 4 + 1) = Some (real g)"
    "rdB (uniformFrame w h (r, g, b, a)) (n * 4 + 2) = Some (real b)"
    by (simp_all add: rdB_def)
qed

lemma lumAt_uniformFrame:
  "n < w * h \<Longrightarrow>
   lumAt (uniformFrame w h (r, g, b, a)) (n * 4) = Some (real r * 0.299 + real g * 0.587 + real b * 0.114)"
  unfolding lumAt_def by (simp only: rdB_uniformFrame add.assoc) (simp add: lift2_def)

lemma neighbour_index:
  assumes "1 \<le> x" "x < w - 1" "1 \<le> y" "y < h - 1"
    and "ky \<in> {- 1, 0, 1}" "kx \<in> {- 1, 0, 1 :: int}"
  shows "\<exists>n. nat (((int y + ky) * int w + (int x + kx)) * 4) = n * 4 \<and> n < w * h"
proof -
  define y' where "y' = nat (int y + ky)"
  define x' where "x' = nat (int x + kx)"
  have y': "int y' = int y + ky" "y' < h" using assms(3,4,5) by (auto simp: y'_def)
  have x': "int x' = int x + kx" "x' < w" using assms(1,2,6) by (auto simp: x'_def)
  have "((int y + ky) * int w + (int x + kx)) * 4 = int ((y' * w + x') * 4)"
    by (simp add: y'(1) x'(1))
  then have "nat (((int y + ky) * int w + (int x + kx)) * 4) = (y' * w + x') * 4"
    by (simp only: nat_int)
  moreover have "y' * w + x' < w * h" using x'(2) y'(2) by (rule row_major_bound)
  ultimately show ?thesis by blast
qed

lemma sobel_uniformFrame:
  assumes "1 \<le> x" "x < w - 1" "1 \<le> y" "y < h - 1"
  shows "sobel (uniformFrame w h (r, g, b, a)) w x y = (Some 0, Some 0)"
proof -
  define L where "L = real r * 0.299 + real g * 0.587 + real b * 0.114"
  have lum: "lumAt (uniformFrame w h (r, g, b, a)) (nat (((int y + ky) * int w + (int x + kx)) * 4)) = Some L"
    if k: "ky \<in> {- 1, 0, 1}" "kx \<in> {- 1, 0, 1}" for ky kx
  proof -
    obtain n where "nat (((int y + ky) * int w + (int x + kx)) * 4) = n * 4" "n < w * h"
      using neighbour_index[OF assms k] by blast
    then show ?thesis by (simp only: lumAt_uniformFrame L_def)
  qed
  have "sobel (uniformFrame w h (r, g, b, a)) w x y
      = fold (\<lambda>ky. fold (\<lambda>kx g.
             (lift2 (+) (fst g) (map_option (\<lambda>l. l * sobelX ! nat (ky + 1) ! nat (kx + 1)) (Some L)),
              lift2 (+) (snd g) (map_option (\<lambda>l. l * sobelY ! nat (ky + 1) ! nat (kx + 1)) (Some L))))
           [- 1, 0, 1]) [- 1, 0, 1] (Some 0, Some 0)"
    unfolding sobel_def Let_def
    by (intro fold_cong refl ext) (simp only: lum list.set)
  also have "\<dots> = (Some 0, Some 0)"
    by (simp add: sobelX_def sobelY_def lift2_def)
  finally show ?thesis .
qed

lemma edgeMagnitude_uniformFrame:
  assumes "1 \<le> x" "x < w - 1" "1 \<le> y" "y < h - 1"
  shows "edgeMagnitude (uniformFrame w h (r, g, b, a)) w x y = Some 0"
  by (simp add: edgeMagnitude_def sobel_uniformFrame[OF assms] lift2_def)

lemma shadedAt_uniformFrame:
  assumes "n < w * h"
  shows "shadedAt P (uniformFrame w h (r, g, b, a)) (n * 4)
       = (case shadePixel P (real r) (real g) (real b) of (r', g', b') \<Rightarrow>
            (toUint8Clamp r', toUint8Clamp g', toUint8Clamp b', 255))"
  unfolding shadedAt_def by (simp only: rdB_uniformFrame[OF assms]) simp

text \<open>
  Where the edge buffer holds zeros only, the second pass darkens nothing and no outline
  is drawn.
\<close>

lemma fold_invariant:
  assumes "Q a" and "\<And>d a. Q a \<Longrightarrow> Q (f d a)"
  shows "Q (fold f ds a)"
  using assms(1) by (induction ds arbitrary: a) (simp_all add: assms(2))

lemma fold_ident:
  assumes "\<And>d. d \<in> set ds \<Longrightarrow> f d a = a"
  shows "fold f ds a = a"
  using assms by (induction ds) simp_all

lemma replicate_update_same: "(replicate N v)[i := v] = replicate N v"
  by (cases "i < N") (simp_all add: list_eq_iff_nth_eq nth_list_update)

lemma rdI_zero_edges: "rdI (replicate N (Some 0)) i = None \<or> rdI (replicate N (Some 0)) i = Some 0"
  by (simp add: rdI_def)

lemma maxEdgeAt_zero_edges:
  "maxEdgeAt (replicate N (Some 0)) w t x y = None \<or> maxEdgeAt (replicate N (Some 0)) w t x y = Some 0"
  unfolding maxEdgeAt_def
proof (rule fold_invariant[where Q = "\<lambda>m. m = None \<or> m = Some 0"])
  show "Some 0 = None \<or> Some 0 = Some (0::real)" by simp
next
  fix dy :: int and m :: "real option"
  assume "m = None \<or> m = Some 0"
  then show "fold (\<lambda>dx maxEdge.
             if sqrt (of_int (dx * dx + dy * dy)) \<le> of_int t
             then lift2 max maxEdge (rdI (replicate N (Some 0)) ((y + dy) * int w + (x + dx)))
             else maxEdge) [- t .. t] m = None
       \<or> fold (\<lambda>dx maxEdge.
             if sqrt (of_int (dx * dx + dy * dy)) \<le> of_int t
             then lift2 max maxEdge (rdI (replicate N (Some 0)) ((y + dy) * int w + (x + dx)))
             else maxEdge) [- t .. t] m = Some 0"
  proof (rule fold_invariant[where Q = "\<lambda>m. m = None \<or> m = Some 0"])
    fix dx :: int and m' :: "real option"
    assume "m' = None \<or> m' = Some 0"
    then show "(if sqrt (of_int (dx * dx + dy * dy)) \<le> of_int t
             then lift2 max m' (rdI (replicate N (Some 0)) ((y + dy) * int w + (x + dx)))
             else m') = None \<or> (if sqrt (of_int (dx * dx + dy * dy)) \<le> of_int t
             then lift2 max m' (rdI (replicate N (Some 0)) ((y + dy) * int w + (x + dx)))
             else m') = Some 0"
      using rdI_zero_edges[of N "(y + dy) * int w + (x + dx)"]
      by (auto simp: lift2_def)
  qed
qed

lemma pass2Pixel_zero_edges: "pass2Pixel (replicate N (Some 0)) w t p D = D"
  using maxEdgeAt_zero_edges[of N w t "snd p" "fst p"]
  by (cases p) (auto simp: pass2Pixel_def Let_def)

lemma pass2_zero_edges: "pass2 (replicate N (Some 0)) w h t D = D"
  unfolding pass2_def
  by (intro fold_ident) (simp_all add: pass2Pixel_zero_edges)

lemma outlinesAt_zero_edges: "outlinesAt lw (replicate N (Some 0)) w h p acc = acc"
  using rdI_zero_edges[of N "int (fst p * w + snd p)"]
  by (cases p) (auto simp: outlinesAt_def)

lemma drawOutlines_zero_edges: "drawOutlines lw (replicate N (Some 0)) w h = []"
  unfolding drawOutlines_def
  by (intro fold_ident) (simp_all add: outlinesAt_zero_edges)

lemma pass1_edges:
  "fst (pass1 P src w h (E, D))
     = fold (\<lambda>p E. E[fst p * w + snd p := edgeMagnitude src w (snd p) (fst p)])
         (List.product [1..<h - 1] [1..<w - 1]) E"
  by (simp add: pass1_def fold_product fst_fold_pass1Pixel)

lemma pass1_edges_uniformFrame:
  "fst (pass1 P (uniformFrame w h (r, g, b, a)) w h (replicate N (Some 0), D)) = replicate N (Some 0)"
  unfolding pass1_edges
proof (rule fold_ident)
  fix p assume "p \<in> set (List.product [1..<h - 1] [1..<w - 1])"
  then have "1 \<le> snd p" "snd p < w - 1" "1 \<le> fst p" "fst p < h - 1" by auto
  then have "edgeMagnitude (uniformFrame w h (r, g, b, a)) w (snd p) (fst p) = Some 0"
    by (rule edgeMagnitude_uniformFrame)
  then show "(replicate N (Some 0))[fst p * w + snd p := edgeMagnitude (uniformFrame w h (r, g, b, a)) w (snd p) (fst p)]
      = replicate N (Some 0)"
    by (simp add: replicate_update_same)
qed

lemma drawFrame_border:
  assumes "x < width" and "y < height"
    and "x = 0 \<or> x = width - 1 \<or> y = 0 \<or> y = height - 1"
  shows "pixelAt (fst (drawFrame P width height src)) width x y = (0, 0, 0, 0)"
proof -
  define D0 where "D0 = replicate (width * height * 4) (0::nat)"
  define E0 :: "real option list" where "E0 = replicate (width * height) (Some 0)"
  define n where "n = y * width + x"
  have n: "n * 4 + 3 < width * height * 4"
    using row_major_bound[OF assms(1,2)] by (simp add: n_def)
  then have "cells4 D0 (n * 4) = (0, 0, 0, 0)"
    by (simp add: cells4_def D0_def)
  moreover have "cells4 (snd (pass1 P src width height (E0, D0))) (n * 4) = cells4 D0 (n * 4)"
    unfolding pass1_dst n_def
    by (rule cells4_fold_other[where k = "\<lambda>p. fst p * width + snd p"])
       (rule border_not_interior[OF assms])
  ultimately have "cells4 (pass2 (fst (pass1 P src width height (E0, D0))) width height \<lfloor>edgeThickness P\<rfloor>
             (snd (pass1 P src width height (E0, D0)))) (n * 4) = (0, 0, 0, 0)"
    by (intro cells4_zero_pass2) simp
  then show ?thesis
    unfolding fst_drawFrame pixelAt_cells4 E0_def D0_def n_def .
qed

lemma drawFrame_uniform_strokes:
  "snd (drawFrame P width height (uniformFrame width height (r, g, b, a))) = []"
  using pass1_edges_uniformFrame[of P width height r g b a "width * height" "replicate (width * height * 4) 0"]
  by (simp add: drawFrame_def split_beta drawOutlines_zero_edges)

lemma drawFrame_uniform_interior:
  assumes "1 \<le> x" and "x < width - 1" and "1 \<le> y" and "y < height - 1"
  shows "pixelAt (fst (drawFrame P width height (uniformFrame width height (r, g, b, a)))) width x y
       = (case shadePixel P (real r) (real g) (real b) of (r', g', b') \<Rightarrow>
            (toUint8Clamp r', toUint8Clamp g', toUint8Clamp b', 255))"
proof -
  define src where "src = uniformFrame width height (r, g, b, a)"
  define D0 where "D0 = replicate (width * height * 4) (0::nat)"
  define E0 :: "real option list" where "E0 = replicate (width * height) (Some 0)"
  define ps where "ps = List.product [1..<height - 1] [1..<width - 1]"
  have xy: "x < width" "y < height" using assms by simp_all
  have n: "y * width + x < width * height" using xy by (rule row_major_bound)
  have "fst (pass1 P src width height (E0, D0)) = E0"
    unfolding src_def E0_def by (rule pass1_edges_uniformFrame)
  then have "fst (drawFrame P width height src) = snd (pass1 P src width height (E0, D0))"
    unfolding fst_drawFrame E0_def[symmetric] D0_def[symmetric]
    by (simp add: E0_def pass2_zero_edges)
  moreover have "cells4 (snd (pass1 P src width height (E0, D0))) ((y * width + x) * 4)
      = shadedAt P src ((y * width + x) * 4)"
    unfolding pass1_dst ps_def[symmetric]
  proof (rule cells4_fold_at[where k = "\<lambda>p. fst p * width + snd p" and q = "(y, x)"
          and v = "\<lambda>p. shadedAt P src ((fst p * width + snd p) * 4)", simplified fst_conv snd_conv])
    show "(y, x) \<in> set ps" using assms by (simp add: ps_def)
    show "distinct (map (\<lambda>p. fst p * width + snd p) ps)" unfolding ps_def by (rule interior_distinct)
    show "(y * width + x) * 4 + 3 < length D0" using n by (simp add: D0_def)
  qed
  ultimately show ?thesis
    unfolding pixelAt_cells4 src_def[symmetric]
    by (simp only: src_def shadedAt_uniformFrame[OF n])
qed

text \<open>
  Evaluating \<open>fl\<close>: once the binary exponent of \<open>x\<close> is known, the double is a
  rounded integer over a power of two.
\<close>

lemma fl_zero: "fl 0 = 0"
  by (simp add: fl_def)

lemma fl_ge1:
  assumes "2 ^ n \<le> \<bar>x\<bar>" and "\<bar>x\<bar> < 2 * 2 ^ n" and "n \<le> 52"
  shows "fl x = of_int (roundHalfEven (x * 2 ^ (52 - n))) / 2 ^ (52 - n)"
proof -
  have "(0::real) < 2 ^ n" by simp
  then have pos: "0 < \<bar>x\<bar>" using assms(1) by linarith
  have "\<lfloor>log 2 \<bar>x\<bar>\<rfloor> = int n"
    using assms(1,2) pos by (simp add: floor_log_eq_powr_iff powr_realpow powr_add)
  moreover have "(2::real) powr (of_int (int n) - 52) = 1 / 2 ^ (52 - n)"
  proof -
    have "of_int (int n) - 52 = - real (52 - n)" using assms(3) by simp
    then show ?thesis by (simp only: powr_minus powr_realpow zero_less_numeral) (simp add: field_simps)
  qed
  ultimately show ?thesis using pos by (simp add: fl_def Let_def)
qed

lemma fl_lt1:
  assumes "1 \<le> \<bar>x\<bar> * 2 ^ n" and "\<bar>x\<bar> * 2 ^ n < 2" and "n \<le> 1022"
  shows "fl x = of_int (roundHalfEven (x * 2 ^ (52 + n))) / 2 ^ (52 + n)"
proof -
  have "x \<noteq> 0" using assms(1) by auto
  then have pos: "0 < \<bar>x\<bar>" by simp
  have p: "(2::real) powr (- real n) = 1 / 2 ^ n"
    by (simp only: powr_minus powr_realpow zero_less_numeral) (simp add: field_simps)
  have q: "(2::real) powr (- real n + 1) = 2 / 2 ^ n"
    unfolding powr_add p by simp
  have "2 powr (- real n) \<le> \<bar>x\<bar>" "\<bar>x\<bar> < 2 powr (- real n + 1)"
    unfolding p q using assms(1,2) by (simp_all add: field_simps)
  then have "\<lfloor>log 2 \<bar>x\<bar>\<rfloor> = - int n"
    using pos by (simp add: floor_log_eq_powr_iff)
  moreover have "(2::real) powr (of_int (- int n) - 52) = 1 / 2 ^ (52 + n)"
  proof -
    have "of_int (- int n) - 52 = - real (52 + n)" by simp
    then show ?thesis by (simp only: powr_minus powr_realpow zero_less_numeral) (simp add: field_simps)
  qed
  ultimately show ?thesis using pos assms(3) by (simp add: fl_def Let_def)
qed

text \<open>
  The shaded colour of four source colours, operation by operation. With the default
  settings \<open>(30, 30, 30)\<close> is in the shadows and becomes black, and
  \<open>(200, 100, 50)\<close> becomes \<open>(204, 102, 51)\<close>. For \<open>(13, 105, 127)\<close> the luminance
  is 80 in exact arithmetic and \<open>79.99999999999999\<close> in doubles, so the shadow factor
  applies; for \<open>(45, 45, 45)\<close> with 256 levels and no saturation boost, \<open>45 * 0.7\<close>
  is \<open>31.499999999999996\<close> and rounds down to 31.
\<close>

lemma shadePixel_30_30_30:
  "shadePixel \<lparr>edgeThickness = 3, colorLevels = 6, shadowIntensity = 5, highlightBoost = 5, saturationBoost = 6\<rparr> 30 30 30 = (Some 0, Some 0, Some 0)"
proof -
  have e1: "fl 0.299 = 5386305154335113 / 18014398509481984"
    by (subst fl_lt1[where n = 2]) (simp_all add: roundHalfEven_def)
  have e2: "fmul 30 (5386305154335113 / 18014398509481984) = 315603817636823 / 35184372088832"
    unfolding fmul_def by (subst fl_ge1[where n = 3]) (simp_all add: roundHalfEven_def)
  have e3: "fl 0.587 = 2643612981266481 / 4503599627370496"
    by (subst fl_lt1[where n = 1]) (simp_all add: roundHalfEven_def)
  have e4: "fmul 30 (2643612981266481 / 4503599627370496) = 1239193584968663 / 70368744177664"
    unfolding fmul_def by (subst fl_ge1[where n = 4]) (simp_all add: roundHalfEven_def)
  have e5: "fadd (315603817636823 / 35184372088832) (1239193584968663 / 70368744177664) = 1870401220242309 / 70368744177664"
    unfolding fadd_def by (subst fl_ge1[where n = 4]) (simp_all add: roundHalfEven_def)
  have e6: "fl 0.114 = 8214565720323785 / 72057594037927936"
    by (subst fl_lt1[where n = 4]) (simp_all add: roundHalfEven_def)
  have e7: "fmul 30 (8214565720323785 / 72057594037927936) = 1925288840700887 / 562949953421312"
    unfolding fmul_def by (subst fl_ge1[where n = 1]) (simp_all add: roundHalfEven_def)
  have e8: "fadd (1870401220242309 / 70368744177664) (1925288840700887 / 562949953421312) = 30"
    unfolding fadd_def by (subst fl_ge1[where n = 4]) (simp_all add: roundHalfEven_def)
  have e9: "fsub 6 5 = 1"
    unfolding fsub_def by (subst fl_ge1[where n = 0]) (simp_all add: roundHalfEven_def)
  have e10: "fl 0.15 = 5404319552844595 / 36028797018963968"
    by (subst fl_lt1[where n = 3]) (simp_all add: roundHalfEven_def)
  have e11: "fmul 1 (5404319552844595 / 36028797018963968) = 5404319552844595 / 36028797018963968"
    unfolding fmul_def by (subst fl_lt1[where n = 3]) (simp_all add: roundHalfEven_def)
  have e12: "fadd 1 (5404319552844595 / 36028797018963968) = 2589569785738035 / 2251799813685248"
    unfolding fadd_def by (subst fl_ge1[where n = 0]) (simp_all add: roundHalfEven_def)
  have e13: "fsub 30 30 = 0"
    unfolding fsub_def by (simp add: fl_zero)
  have e14: "fmul 0 (2589569785738035 / 2251799813685248) = 0"
    unfolding fmul_def by (simp add: fl_zero)
  have e15: "fadd 30 0 = 30"
    unfolding fadd_def by (subst fl_ge1[where n = 4]) (simp_all add: roundHalfEven_def)
  have e16: "fdiv 5 5 = 1"
    unfolding fdiv_def by (subst fl_ge1[where n = 0]) (simp_all add: roundHalfEven_def)
  have e17: "((30 :: real) < 80) = True"
    by simp
  have e18: "fl 0.7 = 3152519739159347 / 4503599627370496"
    by (subst fl_lt1[where n = 1]) (simp_all add: roundHalfEven_def)
  have e19: "fsub 1 1 = 0"
    unfolding fsub_def by (simp add: fl_zero)
  have e20: "fl 0.3 = 5404319552844595 / 18014398509481984"
    by (subst fl_lt1[where n = 2]) (simp_all add: roundHalfEven_def)
  have e21: "fmul 0 (5404319552844595 / 18014398509481984) = 0"
    unfolding fmul_def by (simp add: fl_zero)
  have e22: "fadd (3152519739159347 / 4503599627370496) 0 = 3152519739159347 / 4503599627370496"
    unfolding fadd_def by (subst fl_lt1[where n = 1]) (simp_all add: roundHalfEven_def)
  have e23: "fmul 30 (3152519739159347 / 4503599627370496) = 21"
    unfolding fmul_def by (subst fl_ge1[where n = 4]) (simp_all add: roundHalfEven_def)
  have e24: "fsub 6 1 = 5"
    unfolding fsub_def by (subst fl_ge1[where n = 2]) (simp_all add: roundHalfEven_def)
  have e25: "((5 :: real) = 0) = False"
    by simp
  have e26: "fdiv 255 5 = 51"
    unfolding fdiv_def by (subst fl_ge1[where n = 5]) (simp_all add: roundHalfEven_def)
  have e27: "fdiv 21 51 = 3708846751952173 / 9007199254740992"
    unfolding fdiv_def by (subst fl_lt1[where n = 2]) (simp_all add: roundHalfEven_def)
  have e28: "Math_round (3708846751952173 / 9007199254740992) = 0"
    by (simp add: Math_round_def)
  have e29: "fmul (of_int 0) 51 = 0"
    unfolding fmul_def by (simp add: fl_zero)
  show ?thesis
    unfolding shadePixel_def quantizeChannelD_def quantizeD_def Let_def
    apply (simp only: archer_params.simps e1 e2 e3 e4 e5 e6 e7 e8 e9 e10 e11 e12 e13 e14 e15 e16 e17 e18 e19 e20 e21 e22 e23 e24 e25 e26 e27 e28 e29 if_True if_False prod.case)
    apply (simp add: clamp255_def)
    done
qed

lemma shadePixel_200_100_50:
  "shadePixel \<lparr>edgeThickness = 3, colorLevels = 6, shadowIntensity = 5, highlightBoost = 5, saturationBoost = 6\<rparr> 200 100 50 = (Some 204, Some 102, Some 51)"
proof -
  have e1: "fl 0.299 = 5386305154335113 / 18014398509481984"
    by (subst fl_lt1[where n = 2]) (simp_all add: roundHalfEven_def)
  have e2: "fmul 200 (5386305154335113 / 18014398509481984) = 4208050901824307 / 70368744177664"
    unfolding fmul_def by (subst fl_ge1[where n = 5]) (simp_all add: roundHalfEven_def)
  have e3: "fl 0.587 = 2643612981266481 / 4503599627370496"
    by (subst fl_lt1[where n = 1]) (simp_all add: roundHalfEven_def)
  have e4: "fmul 100 (2643612981266481 / 4503599627370496) = 8261290566457753 / 140737488355328"
    unfolding fmul_def by (subst fl_ge1[where n = 5]) (simp_all add: roundHalfEven_def)
  have e5: "fadd (4208050901824307 / 70368744177664) (8261290566457753 / 140737488355328) = 237 / 2"
    unfolding fadd_def by (subst fl_ge1[where n = 6]) (simp_all add: roundHalfEven_def)
  have e6: "fl 0.114 = 8214565720323785 / 72057594037927936"
    by (subst fl_lt1[where n = 4]) (simp_all add: roundHalfEven_def)
  have e7: "fmul 50 (8214565720323785 / 72057594037927936) = 6417629469002957 / 1125899906842624"
    unfolding fmul_def by (subst fl_ge1[where n = 2]) (simp_all add: roundHalfEven_def)
  have e8: "fadd (237 / 2) (6417629469002957 / 1125899906842624) = 8739798026865869 / 70368744177664"
    unfolding fadd_def by (subst fl_ge1[where n = 6]) (simp_all add: roundHalfEven_def)
  have e9: "fsub 6 5 = 1"
    unfolding fsub_def by (subst fl_ge1[where n = 0]) (simp_all add: roundHalfEven_def)
  have e10: "fl 0.15 = 5404319552844595 / 36028797018963968"
    by (subst fl_lt1[where n = 3]) (simp_all add: roundHalfEven_def)
  have e11: "fmul 1 (5404319552844595 / 36028797018963968) = 5404319552844595 / 36028797018963968"
    unfolding fmul_def by (subst fl_lt1[where n = 3]) (simp_all add: roundHalfEven_def)
  have e12: "fadd 1 (5404319552844595 / 36028797018963968) = 2589569785738035 / 2251799813685248"
    unfolding fadd_def by (subst fl_ge1[where n = 0]) (simp_all add: roundHalfEven_def)
  have e13: "fsub 200 (8739798026865869 / 70368744177664) = 5333950808666931 / 70368744177664"
    unfolding fsub_def by (subst fl_ge1[where n = 6]) (simp_all add: roundHalfEven_def)
  have e14: "fmul (5333950808666931 / 70368744177664) (2589569785738035 / 2251799813685248) = 3067021714983485 / 35184372088832"
    unfolding fmul_def by (subst fl_ge1[where n = 6]) (simp_all add: roundHalfEven_def)
  have e15: "fadd (8739798026865869 / 70368744177664) (3067021714983485 / 35184372088832) = 1859230182104105 / 8796093022208"
    unfolding fadd_def by (subst fl_ge1[where n = 7]) (simp_all add: roundHalfEven_def)
  have e16: "fsub 100 (8739798026865869 / 70368744177664) = - (1702923609099469 / 70368744177664)"
    unfolding fsub_def by (subst fl_ge1[where n = 4]) (simp_all add: roundHalfEven_def)
  have e17: "fmul (- (1702923609099469 / 70368744177664)) (2589569785738035 / 2251799813685248) = - (7833448601857557 / 281474976710656)"
    unfolding fmul_def by (subst fl_ge1[where n = 4]) (simp_all add: roundHalfEven_def)
  have e18: "fadd (8739798026865869 / 70368744177664) (- (7833448601857557 / 281474976710656)) = 847679484550185 / 8796093022208"
    unfolding fadd_def by (subst fl_ge1[where n = 6]) (simp_all add: roundHalfEven_def)
  have e19: "fsub 50 (8739798026865869 / 70368744177664) = - (5221360817982669 / 70368744177664)"
    unfolding fsub_def by (subst fl_ge1[where n = 6]) (simp_all add: roundHalfEven_def)
  have e20: "fmul (- (5221360817982669 / 70368744177664)) (2589569785738035 / 2251799813685248) = - (6004564940680069 / 70368744177664)"
    unfolding fmul_def by (subst fl_ge1[where n = 6]) (simp_all add: roundHalfEven_def)
  have e21: "fadd (8739798026865869 / 70368744177664) (- (6004564940680069 / 70368744177664)) = 341904135773225 / 8796093022208"
    unfolding fadd_def by (subst fl_ge1[where n = 5]) (simp_all add: roundHalfEven_def)
  have e22: "fdiv 5 5 = 1"
    unfolding fdiv_def by (subst fl_ge1[where n = 0]) (simp_all add: roundHalfEven_def)
  have e23: "((8739798026865869 / 70368744177664 :: real) < 80) = False"
    by simp
  have e24: "((180 :: real) < 8739798026865869 / 70368744177664) = False"
    by simp
  have e25: "fsub 6 1 = 5"
    unfolding fsub_def by (subst fl_ge1[where n = 2]) (simp_all add: roundHalfEven_def)
  have e26: "((5 :: real) = 0) = False"
    by simp
  have e27: "fdiv 255 5 = 51"
    unfolding fdiv_def by (subst fl_ge1[where n = 5]) (simp_all add: roundHalfEven_def)
  have e28: "fdiv (1859230182104105 / 8796093022208) 51 = 1166575800535909 / 281474976710656"
    unfolding fdiv_def by (subst fl_ge1[where n = 2]) (simp_all add: roundHalfEven_def)
  have e29: "Math_round (1166575800535909 / 281474976710656) = 4"
    by (simp add: Math_round_def)
  have e30: "fmul (of_int 4) 51 = 204"
    unfolding fmul_def by (subst fl_ge1[where n = 7]) (simp_all add: roundHalfEven_def)
  have e31: "fdiv (847679484550185 / 8796093022208) 51 = 2127509294557327 / 1125899906842624"
    unfolding fdiv_def by (subst fl_ge1[where n = 0]) (simp_all add: roundHalfEven_def)
  have e32: "Math_round (2127509294557327 / 1125899906842624) = 2"
    by (simp add: Math_round_def)
  have e33: "fmul (of_int 2) 51 = 102"
    unfolding fmul_def by (subst fl_ge1[where n = 6]) (simp_all add: roundHalfEven_def)
  have e34: "fdiv (341904135773225 / 8796093022208) 51 = 1716224681528345 / 2251799813685248"
    unfolding fdiv_def by (subst fl_lt1[where n = 1]) (simp_all add: roundHalfEven_def)
  have e35: "Math_round (1716224681528345 / 2251799813685248) = 1"
    by (simp add: Math_round_def)
  have e36: "fmul (of_int 1) 51 = 51"
    unfolding fmul_def by (subst fl_ge1[where n = 5]) (simp_all add: roundHalfEven_def)
  show ?thesis
    unfolding shadePixel_def quantizeChannelD_def quantizeD_def Let_def
    apply (simp only: archer_params.simps e1 e2 e3 e4 e5 e6 e7 e8 e9 e10 e11 e12 e13 e14 e15 e16 e17 e18 e19 e20 e21 e22 e23 e24 e25 e26 e27 e28 e29 e30 e31 e32 e33 e34 e35 e36 if_True if_False prod.case)
    apply (simp add: clamp255_def)
    done
qed

lemma shadePixel_13_105_127:
  "shadePixel \<lparr>edgeThickness = 3, colorLevels = 6, shadowIntensity = 5, highlightBoost = 5, saturationBoost = 6\<rparr> 13 105 127 = (Some 0, Some 51, Some 102)"
proof -
  have e1: "fl 0.299 = 5386305154335113 / 18014398509481984"
    by (subst fl_lt1[where n = 2]) (simp_all add: roundHalfEven_def)
  have e2: "fmul 13 (5386305154335113 / 18014398509481984) = 8752745875794559 / 2251799813685248"
    unfolding fmul_def by (subst fl_ge1[where n = 1]) (simp_all add: roundHalfEven_def)
  have e3: "fl 0.587 = 2643612981266481 / 4503599627370496"
    by (subst fl_lt1[where n = 1]) (simp_all add: roundHalfEven_def)
  have e4: "fmul 105 (2643612981266481 / 4503599627370496) = 8674355094780641 / 140737488355328"
    unfolding fmul_def by (subst fl_ge1[where n = 5]) (simp_all add: roundHalfEven_def)
  have e5: "fadd (8752745875794559 / 2251799813685248) (8674355094780641 / 140737488355328) = 1152675214002225 / 17592186044416"
    unfolding fadd_def by (subst fl_ge1[where n = 6]) (simp_all add: roundHalfEven_def)
  have e6: "fl 0.114 = 8214565720323785 / 72057594037927936"
    by (subst fl_lt1[where n = 4]) (simp_all add: roundHalfEven_def)
  have e7: "fmul 127 (8214565720323785 / 72057594037927936) = 8150389425633755 / 562949953421312"
    unfolding fmul_def by (subst fl_ge1[where n = 3]) (simp_all add: roundHalfEven_def)
  have e8: "fadd (1152675214002225 / 17592186044416) (8150389425633755 / 562949953421312) = 5629499534213119 / 70368744177664"
    unfolding fadd_def by (subst fl_ge1[where n = 6]) (simp_all add: roundHalfEven_def)
  have e9: "fsub 6 5 = 1"
    unfolding fsub_def by (subst fl_ge1[where n = 0]) (simp_all add: roundHalfEven_def)
  have e10: "fl 0.15 = 5404319552844595 / 36028797018963968"
    by (subst fl_lt1[where n = 3]) (simp_all add: roundHalfEven_def)
  have e11: "fmul 1 (5404319552844595 / 36028797018963968) = 5404319552844595 / 36028797018963968"
    unfolding fmul_def by (subst fl_lt1[where n = 3]) (simp_all add: roundHalfEven_def)
  have e12: "fadd 1 (5404319552844595 / 36028797018963968) = 2589569785738035 / 2251799813685248"
    unfolding fadd_def by (subst fl_ge1[where n = 0]) (simp_all add: roundHalfEven_def)
  have e13: "fsub 13 (5629499534213119 / 70368744177664) = - (4714705859903487 / 70368744177664)"
    unfolding fsub_def by (subst fl_ge1[where n = 6]) (simp_all add: roundHalfEven_def)
  have e14: "fmul (- (4714705859903487 / 70368744177664)) (2589569785738035 / 2251799813685248) = - (2710955869444505 / 35184372088832)"
    unfolding fmul_def by (subst fl_ge1[where n = 6]) (simp_all add: roundHalfEven_def)
  have e15: "fadd (5629499534213119 / 70368744177664) (- (2710955869444505 / 35184372088832)) = 207587795324109 / 70368744177664"
    unfolding fadd_def by (subst fl_ge1[where n = 1]) (simp_all add: roundHalfEven_def)
  have e16: "fsub 105 (5629499534213119 / 70368744177664) = 1759218604441601 / 70368744177664"
    unfolding fsub_def by (subst fl_ge1[where n = 4]) (simp_all add: roundHalfEven_def)
  have e17: "fmul (1759218604441601 / 70368744177664) (2589569785738035 / 2251799813685248) = 2023101395107841 / 70368744177664"
    unfolding fmul_def by (subst fl_ge1[where n = 4]) (simp_all add: roundHalfEven_def)
  have e18: "fadd (5629499534213119 / 70368744177664) (2023101395107841 / 70368744177664) = 435 / 4"
    unfolding fadd_def by (subst fl_ge1[where n = 6]) (simp_all add: roundHalfEven_def)
  have e19: "fsub 127 (5629499534213119 / 70368744177664) = 3307330976350209 / 70368744177664"
    unfolding fsub_def by (subst fl_ge1[where n = 5]) (simp_all add: roundHalfEven_def)
  have e20: "fmul (3307330976350209 / 70368744177664) (2589569785738035 / 2251799813685248) = 950857655700685 / 17592186044416"
    unfolding fmul_def by (subst fl_ge1[where n = 5]) (simp_all add: roundHalfEven_def)
  have e21: "fadd (5629499534213119 / 70368744177664) (950857655700685 / 17592186044416) = 2358232539253965 / 17592186044416"
    unfolding fadd_def by (subst fl_ge1[where n = 7]) (simp_all add: roundHalfEven_def)
  have e22: "fdiv 5 5 = 1"
    unfolding fdiv_def by (subst fl_ge1[where n = 0]) (simp_all add: roundHalfEven_def)
  have e23: "((5629499534213119 / 70368744177664 :: real) < 80) = True"
    by simp
  have e24: "fl 0.7 = 3152519739159347 / 4503599627370496"
    by (subst fl_lt1[where n = 1]) (simp_all add: roundHalfEven_def)
  have e25: "fsub 1 1 = 0"
    unfolding fsub_def by (simp add: fl_zero)
  have e26: "fl 0.3 = 5404319552844595 / 18014398509481984"
    by (subst fl_lt1[where n = 2]) (simp_all add: roundHalfEven_def)
  have e27: "fmul 0 (5404319552844595 / 18014398509481984) = 0"
    unfolding fmul_def by (simp add: fl_zero)
  have e28: "fadd (3152519739159347 / 4503599627370496) 0 = 3152519739159347 / 4503599627370496"
    unfolding fadd_def by (subst fl_lt1[where n = 1]) (simp_all add: roundHalfEven_def)
  have e29: "fmul (207587795324109 / 70368744177664) (3152519739159347 / 4503599627370496) = 4649966615260041 / 2251799813685248"
    unfolding fmul_def by (subst fl_ge1[where n = 1]) (simp_all add: roundHalfEven_def)
  have e30: "fmul (435 / 4) (3152519739159347 / 4503599627370496) = 609 / 8"
    unfolding fmul_def by (subst fl_ge1[where n = 6]) (simp_all add: roundHalfEven_def)
  have e31: "fmul (2358232539253965 / 17592186044416) (3152519739159347 / 4503599627370496) = 3301525554955551 / 35184372088832"
    unfolding fmul_def by (subst fl_ge1[where n = 6]) (simp_all add: roundHalfEven_def)
  have e32: "fsub 6 1 = 5"
    unfolding fsub_def by (subst fl_ge1[where n = 2]) (simp_all add: roundHalfEven_def)
  have e33: "((5 :: real) = 0) = False"
    by simp
  have e34: "fdiv 255 5 = 51"
    unfolding fdiv_def by (subst fl_ge1[where n = 5]) (simp_all add: roundHalfEven_def)
  have e35: "fdiv (4649966615260041 / 2251799813685248) 51 = 91175815985491 / 2251799813685248"
    unfolding fdiv_def by (subst fl_lt1[where n = 5]) (simp_all add: roundHalfEven_def)
  have e36: "Math_round (91175815985491 / 2251799813685248) = 0"
    by (simp add: Math_round_def)
  have e37: "fmul (of_int 0) 51 = 0"
    unfolding fmul_def by (simp add: fl_zero)
  have e38: "fdiv (609 / 8) 51 = 3361142368956657 / 2251799813685248"
    unfolding fdiv_def by (subst fl_ge1[where n = 0]) (simp_all add: roundHalfEven_def)
  have e39: "Math_round (3361142368956657 / 2251799813685248) = 1"
    by (simp add: Math_round_def)
  have e40: "fmul (of_int 1) 51 = 51"
    unfolding fmul_def by (subst fl_ge1[where n = 5]) (simp_all add: roundHalfEven_def)
  have e41: "fdiv (3301525554955551 / 35184372088832) 51 = 8286181784986481 / 4503599627370496"
    unfolding fdiv_def by (subst fl_ge1[where n = 0]) (simp_all add: roundHalfEven_def)
  have e42: "Math_round (8286181784986481 / 4503599627370496) = 2"
    by (simp add: Math_round_def)
  have e43: "fmul (of_int 2) 51 = 102"
    unfolding fmul_def by (subst fl_ge1[where n = 6]) (simp_all add: roundHalfEven_def)
  show ?thesis
    unfolding shadePixel_def quantizeChannelD_def quantizeD_def Let_def
    apply (simp only: archer_params.simps e1 e2 e3 e4 e5 e6 e7 e8 e9 e10 e11 e12 e13 e14 e15 e16 e17 e18 e19 e20 e21 e22 e23 e24 e25 e26 e27 e28 e29 e30 e31 e32 e33 e34 e35 e36 e37 e38 e39 e40 e41 e42 e43 if_True if_False prod.case)
    apply (simp add: clamp255_def)
    done
qed

lemma shadePixel_45_45_45:
  "shadePixel \<lparr>edgeThickness = 3, colorLevels = 256, shadowIntensity = 5, highlightBoost = 5, saturationBoost = 5\<rparr> 45 45 45 = (Some 31, Some 31, Some 31)"
proof -
  have e1: "fl 0.299 = 5386305154335113 / 18014398509481984"
    by (subst fl_lt1[where n = 2]) (simp_all add: roundHalfEven_def)
  have e2: "fmul 45 (5386305154335113 / 18014398509481984) = 7574491623283753 / 562949953421312"
    unfolding fmul_def by (subst fl_ge1[where n = 3]) (simp_all add: roundHalfEven_def)
  have e3: "fl 0.587 = 2643612981266481 / 4503599627370496"
    by (subst fl_lt1[where n = 1]) (simp_all add: roundHalfEven_def)
  have e4: "fmul 45 (2643612981266481 / 4503599627370496) = 3717580754905989 / 140737488355328"
    unfolding fmul_def by (subst fl_ge1[where n = 4]) (simp_all add: roundHalfEven_def)
  have e5: "fadd (7574491623283753 / 562949953421312) (3717580754905989 / 140737488355328) = 5611203660726927 / 140737488355328"
    unfolding fadd_def by (subst fl_ge1[where n = 5]) (simp_all add: roundHalfEven_def)
  have e6: "fl 0.114 = 8214565720323785 / 72057594037927936"
    by (subst fl_lt1[where n = 4]) (simp_all add: roundHalfEven_def)
  have e7: "fmul 45 (8214565720323785 / 72057594037927936) = 5775866522102661 / 1125899906842624"
    unfolding fmul_def by (subst fl_ge1[where n = 2]) (simp_all add: roundHalfEven_def)
  have e8: "fadd (5611203660726927 / 140737488355328) (5775866522102661 / 1125899906842624) = 45"
    unfolding fadd_def by (subst fl_ge1[where n = 5]) (simp_all add: roundHalfEven_def)
  have e9: "fsub 5 5 = 0"
    unfolding fsub_def by (simp add: fl_zero)
  have e10: "fl 0.15 = 5404319552844595 / 36028797018963968"
    by (subst fl_lt1[where n = 3]) (simp_all add: roundHalfEven_def)
  have e11: "fmul 0 (5404319552844595 / 36028797018963968) = 0"
    unfolding fmul_def by (simp add: fl_zero)
  have e12: "fadd 1 0 = 1"
    unfolding fadd_def by (subst fl_ge1[where n = 0]) (simp_all add: roundHalfEven_def)
  have e13: "fsub 45 45 = 0"
    unfolding fsub_def by (simp add: fl_zero)
  have e14: "fmul 0 1 = 0"
    unfolding fmul_def by (simp add: fl_zero)
  have e15: "fadd 45 0 = 45"
    unfolding fadd_def by (subst fl_ge1[where n = 5]) (simp_all add: roundHalfEven_def)
  have e16: "fdiv 5 5 = 1"
    unfolding fdiv_def by (subst fl_ge1[where n = 0]) (simp_all add: roundHalfEven_def)
  have e17: "((45 :: real) < 80) = True"
    by simp
  have e18: "fl 0.7 = 3152519739159347 / 4503599627370496"
    by (subst fl_lt1[where n = 1]) (simp_all add: roundHalfEven_def)
  have e19: "fsub 1 1 = 0"
    unfolding fsub_def by (simp add: fl_zero)
  have e20: "fl 0.3 = 5404319552844595 / 18014398509481984"
    by (subst fl_lt1[where n = 2]) (simp_all add: roundHalfEven_def)
  have e21: "fmul 0 (5404319552844595 / 18014398509481984) = 0"
    unfolding fmul_def by (simp add: fl_zero)
  have e22: "fadd (3152519739159347 / 4503599627370496) 0 = 3152519739159347 / 4503599627370496"
    unfolding fadd_def by (subst fl_lt1[where n = 1]) (simp_all add: roundHalfEven_def)
  have e23: "fmul 45 (3152519739159347 / 4503599627370496) = 8866461766385663 / 281474976710656"
    unfolding fmul_def by (subst fl_ge1[where n = 4]) (simp_all add: roundHalfEven_def)
  have e24: "fsub 256 1 = 255"
    unfolding fsub_def by (subst fl_ge1[where n = 7]) (simp_all add: roundHalfEven_def)
  have e25: "((255 :: real) = 0) = False"
    by simp
  have e26: "fdiv 255 255 = 1"
    unfolding fdiv_def by (subst fl_ge1[where n = 0]) (simp_all add: roundHalfEven_def)
  have e27: "fdiv (8866461766385663 / 281474976710656) 1 = 8866461766385663 / 281474976710656"
    unfolding fdiv_def by (subst fl_ge1[where n = 4]) (simp_all add: roundHalfEven_def)
  have e28: "Math_round (8866461766385663 / 281474976710656) = 31"
    by (simp add: Math_round_def)
  have e29: "fmul (of_int 31) 1 = 31"
    unfolding fmul_def by (subst fl_ge1[where n = 4]) (simp_all add: roundHalfEven_def)
  show ?thesis
    unfolding shadePixel_def quantizeChannelD_def quantizeD_def Let_def
    apply (simp only: archer_params.simps e1 e2 e3 e4 e5 e6 e7 e8 e9 e10 e11 e12 e13 e14 e15 e16 e17 e18 e19 e20 e21 e22 e23 e24 e25 e26 e27 e28 e29 if_True if_False prod.case)
    apply (simp add: clamp255_def)
    done
qed

lemma uniform_13_105_127_interior:
  "pixelAt (fst (drawFrame \<lparr>edgeThickness = 3, colorLevels = 6, shadowIntensity = 5,
                            highlightBoost = 5, saturationBoost = 6\<rparr> 3 3
                   (uniformFrame 3 3 (13, 105, 127, 255)))) 3 1 1 = (0, 51, 102, 255)"
proof -
  have u: "toUint8Clamp (Some 0) = 0" "toUint8Clamp (Some 51) = 51" "toUint8Clamp (Some 102) = 102"
    by (simp_all add: toUint8Clamp_def)
  have "(1::nat) \<le> 1" "(1::nat) < 3 - 1" by simp_all
  then show ?thesis
    using shadePixel_13_105_127 by (simp add: drawFrame_uniform_interior u)
qed

text \<open>
  C10. On every frame that \<open>draw\<close> computes, the pixels of the outermost one-pixel
  border of the output buffer are transparent black, all four bytes zero, whatever the
  source frame holds and whatever the settings: the first pass writes interior pixels
  only, and the second pass multiplies the bytes it visits, which leaves a zero a zero.
\<close>

theorem border_transparent_black:
  assumes "0 < videoW" and "x < width" and "y < height"
    and "x = 0 \<or> x = width - 1 \<or> y = 0 \<or> y = height - 1"
  shows "draw P videoW width height src = Inr (Some (drawFrame P width height src))
       \<and> pixelAt (fst (drawFrame P width height src)) width x y = (0, 0, 0, 0)"
proof -
  have "draw P videoW width height src = Inr (Some (drawFrame P width height src))"
    using assms(1-3) by (simp add: draw_def)
  then show ?thesis
    using drawFrame_border[OF assms(2-4)] by simp
qed

theorem border_transparent_black_witness:
  "draw \<lparr>edgeThickness = 3, colorLevels = 6, shadowIntensity = 5, highlightBoost = 5, saturationBoost = 6\<rparr>
      640 3 3 (map (\<lambda>i. (i * 37) mod 256) [0..<36])
     = Inr (Some (drawFrame \<lparr>edgeThickness = 3, colorLevels = 6, shadowIntensity = 5, highlightBoost = 5,
                   saturationBoost = 6\<rparr> 3 3 (map (\<lambda>i. (i * 37) mod 256) [0..<36])))
   \<and> pixelAt (fst (drawFrame \<lparr>edgeThickness = 3, colorLevels = 6, shadowIntensity = 5, highlightBoost = 5,
                   saturationBoost = 6\<rparr> 3 3 (map (\<lambda>i. (i * 37) mod 256) [0..<36]))) 3 2 1 = (0, 0, 0, 0)"
proof -
  have "(0::nat) < 640" "(2::nat) < 3" "(1::nat) < 3" "(2::nat) = 0 \<or> (2::nat) = 3 - 1 \<or> (1::nat) = 0 \<or> (1::nat) = 3 - 1"
    by simp_all
  then show ?thesis by (rule border_transparent_black)
qed

text \<open>
  C3, as the code has it. For a source frame of one colour, \<open>draw\<close> strokes no
  outline, every interior pixel of the output is the same opaque colour, the stored
  quantization level of the input colour after the saturation boost and the shadow or
  highlight factor (\<open>shadePixel\<close>, computed in doubles as the program does), and
  every border pixel is transparent black.
\<close>

theorem uniform_frame_flat_interior:
  assumes "0 < videoW" and "x < width" and "y < height"
  shows "draw P videoW width height (uniformFrame width height (r, g, b, a))
           = Inr (Some (drawFrame P width height (uniformFrame width height (r, g, b, a))))
       \<and> snd (drawFrame P width height (uniformFrame width height (r, g, b, a))) = []
       \<and> pixelAt (fst (drawFrame P width height (uniformFrame width height (r, g, b, a)))) width x y
           = (if 1 \<le> x \<and> x < width - 1 \<and> 1 \<le> y \<and> y < height - 1
              then (case shadePixel P (real r) (real g) (real b) of (r', g', b') \<Rightarrow>
                      (toUint8Clamp r', toUint8Clamp g', toUint8Clamp b', 255))
              else (0, 0, 0, 0))"
proof -
  have "draw P videoW width height (uniformFrame width height (r, g, b, a))
           = Inr (Some (drawFrame P width height (uniformFrame width height (r, g, b, a))))"
    using assms by (simp add: draw_def)
  moreover have "pixelAt (fst (drawFrame P width height (uniformFrame width height (r, g, b, a)))) width x y
           = (if 1 \<le> x \<and> x < width - 1 \<and> 1 \<le> y \<and> y < height - 1
              then (case shadePixel P (real r) (real g) (real b) of (r', g', b') \<Rightarrow>
                      (toUint8Clamp r', toUint8Clamp g', toUint8Clamp b', 255))
              else (0, 0, 0, 0))"
  proof (cases "1 \<le> x \<and> x < width - 1 \<and> 1 \<le> y \<and> y < height - 1")
    case True
    then show ?thesis by (simp add: drawFrame_uniform_interior)
  next
    case False
    then have "x = 0 \<or> x = width - 1 \<or> y = 0 \<or> y = height - 1"
      using assms(2,3) by linarith
    from drawFrame_border[OF assms(2,3) this]
    have z: "pixelAt (fst (drawFrame P width height (uniformFrame width height (r, g, b, a)))) width x y
        = (0, 0, 0, 0)" .
    show ?thesis unfolding z if_not_P[OF False] by (rule refl)
  qed
  ultimately show ?thesis by (simp add: drawFrame_uniform_strokes)
qed

theorem uniform_frame_flat_interior_witness:
  "snd (drawFrame \<lparr>edgeThickness = 3, colorLevels = 6, shadowIntensity = 5,
                   highlightBoost = 5, saturationBoost = 6\<rparr> 4 4
          (uniformFrame 4 4 (200, 100, 50, 255))) = []
   \<and> pixelAt (fst (drawFrame \<lparr>edgeThickness = 3, colorLevels = 6, shadowIntensity = 5,
                   highlightBoost = 5, saturationBoost = 6\<rparr> 4 4
          (uniformFrame 4 4 (200, 100, 50, 255)))) 4 2 1 = (204, 102, 51, 255)"
proof -
  note s = shadePixel_200_100_50
  have u: "toUint8Clamp (Some 204) = 204" "toUint8Clamp (Some 102) = 102" "toUint8Clamp (Some 51) = 51"
    by (simp_all add: toUint8Clamp_def)
  have h: "(0::nat) < 640" "(2::nat) < 4" "(1::nat) < 4" by simp_all
  from uniform_frame_flat_interior[OF h, of "\<lparr>edgeThickness = 3, colorLevels = 6, shadowIntensity = 5,
                   highlightBoost = 5, saturationBoost = 6\<rparr>" 200 100 50 255]
  show ?thesis by (simp add: s u)
qed

text \<open>
  C3 as the specification words it fails: with the default settings, the interior pixel
  of a 3 by 3 frame of the grey \<open>(30, 30, 30)\<close> is black, because the shadow factor
  0.7 brings 30 down to 21 before the quantization to 6 levels, while the quantization
  level nearest to 30 is 51.
\<close>

theorem uniform_frame_counterexample:
  "pixelAt (fst (drawFrame \<lparr>edgeThickness = 3, colorLevels = 6, shadowIntensity = 5,
                            highlightBoost = 5, saturationBoost = 6\<rparr> 3 3
                   (uniformFrame 3 3 (30, 30, 30, 255)))) 3 1 1 = (0, 0, 0, 255)
   \<and> toUint8Clamp (quantizeChannel 6 30) = 51"
proof -
  have "(1::nat) \<le> 1" "(1::nat) < 3 - 1" by simp_all
  then have "pixelAt (fst (drawFrame \<lparr>edgeThickness = 3, colorLevels = 6, shadowIntensity = 5,
                            highlightBoost = 5, saturationBoost = 6\<rparr> 3 3
                   (uniformFrame 3 3 (30, 30, 30, 255)))) 3 1 1 = (0, 0, 0, 255)"
    using shadePixel_30_30_30 by (simp add: drawFrame_uniform_interior toUint8Clamp_zero)
  moreover have "toUint8Clamp (quantizeChannel 6 30) = 51"
    by (simp add: toUint8Clamp_def quantizeChannel_def quantize_def clamp255_def Math_round_def)
  ultimately show ?thesis by simp
qed

end
